theory Spec2Isabelle
  imports Main "HOL-Library.AList" "HOL-Library.Sublist"
begin

section \<open>JavaScript values and objects\<close>

text \<open>
  The typed API stores and forwards values of type \<^verbatim>\<open>any\<close>. They are modelled by the
  serialisable JavaScript values; numbers are taken as integers (no fractions, no NaN).
  An object is the list of its own properties in creation order; an array value is
  the object of its own properties.
\<close>

datatype jsval =
    JUndefined
  | JNull
  | JBool bool
  | JNum int
  | JStr string
  | JObj "(string \<times> jsval) list"

type_synonym js_object = "(string \<times> jsval) list"

text \<open>What \<^verbatim>\<open>if (v)\<close> and \<^verbatim>\<open>!v\<close> test.\<close>

fun truthy :: "jsval \<Rightarrow> bool" where
  "truthy JUndefined = False"
| "truthy JNull = False"
| "truthy (JBool b) = b"
| "truthy (JNum n) = (n \<noteq> 0)"
| "truthy (JStr s) = (s \<noteq> [])"
| "truthy (JObj kvs) = True"

text \<open>\<^verbatim>\<open>obj[k]\<close>: reading a property that is absent gives \<^verbatim>\<open>undefined\<close>.\<close>

definition get_property :: "js_object \<Rightarrow> string \<Rightarrow> jsval" where
  "get_property obj k = (case map_of obj k of None \<Rightarrow> JUndefined | Some v \<Rightarrow> v)"

text \<open>
  \<^verbatim>\<open>obj[k] = v\<close>: an existing property keeps its place and takes the new value, a new
  property is created after the existing ones.
\<close>

definition set_property :: "string \<Rightarrow> jsval \<Rightarrow> js_object \<Rightarrow> js_object" where
  "set_property k v obj = AList.update k v obj"

text \<open>
  \<^verbatim>\<open>Object.entries(obj)\<close> enumerates the own properties in the order of the language:
  the keys that are array indices (canonical decimal numerals below \<open>2^32 - 1\<close>) first,
  in ascending numeric order, then the other keys in creation order.
\<close>

definition is_digit :: "char \<Rightarrow> bool" where
  "is_digit c = (c \<in> set ''0123456789'')"

definition digit_value :: "char \<Rightarrow> nat" where
  "digit_value c = of_char c - 48"

definition decimal_value :: "string \<Rightarrow> nat" where
  "decimal_value s = foldl (\<lambda>n c. 10 * n + digit_value c) 0 s"

definition is_array_index :: "string \<Rightarrow> bool" where
  "is_array_index s =
     (s \<noteq> [] \<and> list_all is_digit s \<and> (s = ''0'' \<or> hd s \<noteq> CHR ''0'')
      \<and> decimal_value s < 4294967295)"

definition Object_entries :: "(string \<times> 'v) list \<Rightarrow> (string \<times> 'v) list" where
  "Object_entries obj =
     sort_key (\<lambda>kv. decimal_value (fst kv)) (filter (\<lambda>kv. is_array_index (fst kv)) obj)
     @ filter (\<lambda>kv. \<not> is_array_index (fst kv)) obj"

text \<open>
  \<^verbatim>\<open>Array.prototype.sort(cmp)\<close> is a stable sort: an element goes before another
  when \<open>cmp\<close> is negative on them, and elements on which \<open>cmp\<close> is zero keep their order.
\<close>

fun sort_insert :: "('a \<Rightarrow> 'a \<Rightarrow> int) \<Rightarrow> 'a \<Rightarrow> 'a list \<Rightarrow> 'a list" where
  "sort_insert cmp x [] = [x]"
| "sort_insert cmp x (y # ys) =
     (if cmp x y \<le> 0 then x # y # ys else y # sort_insert cmp x ys)"

definition array_sort :: "('a \<Rightarrow> 'a \<Rightarrow> int) \<Rightarrow> 'a list \<Rightarrow> 'a list" where
  "array_sort cmp xs = foldr (sort_insert cmp) xs []"

text \<open>
  What a failed call throws: the \<^verbatim>\<open>TypeError\<close> of the language (the module is in strict
  mode, where creating a property on a primitive value throws), or any value the
  target rejects with.
\<close>

datatype js_exception = TypeError | Thrown jsval


section \<open>The data model of \<^verbatim>\<open>typed-api.ts\<close>\<close>

subsection \<open>Module identifiers\<close>

definition SPRING_BOOT_MODULES_JWT :: string where
  "SPRING_BOOT_MODULES_JWT = ''jhipster:spring-boot:jwt''"

definition SPRING_BOOT_MODULES_OAUTH2 :: string where
  "SPRING_BOOT_MODULES_OAUTH2 = ''jhipster:spring-boot:oauth2''"

definition SPRING_DATA_MODULES_MONGODB :: string where
  "SPRING_DATA_MODULES_MONGODB = ''jhipster:spring-data:mongodb''"


subsection \<open>Module requests\<close>

text \<open>
  \<^verbatim>\<open>SpringBootModuleConfig\<close> is \<^verbatim>\<open>{module, enabled, config?, priority?}\<close>; the second
  parameter of \<^verbatim>\<open>injectModule\<close> has the type \<^verbatim>\<open>Omit<SpringBootModuleConfig, 'module'>\<close>,
  the record without the identifier, in which \<^verbatim>\<open>enabled\<close> is required. The type does
  not keep an object with further keys out: a variable of type \<^verbatim>\<open>SpringBootModuleConfig\<close>
  is assignable to it. So the argument is modelled with the declared keys and with the
  own key \<^verbatim>\<open>module\<close> it may carry (\<open>moduleKey\<close>, \<open>None\<close> when the object has no such
  key), the one further key that the spread in \<^verbatim>\<open>injectModule\<close> makes visible. The
  identifier is any string: the union of literals is checked by the compiler only. The
  priority is an integer, as in the data model of the specification.
\<close>

record SpringBootModuleOptions =
  enabled :: bool
  config :: "js_object option"
  priority :: "int option"

record SpringBootModuleConfig = SpringBootModuleOptions +
  module :: string

record SpringBootModuleArgument = SpringBootModuleOptions +
  moduleKey :: "string option"

subsection \<open>Property overrides\<close>

datatype property_type = TString | TNumber | TBoolean | TArray | TObject

record SpringBootPropertyOverrideOptions =
  type :: "property_type option"
  override :: "bool option"
  profiles :: "js_object option"

record SpringBootPropertyOverride = SpringBootPropertyOverrideOptions +
  property :: string
  "value" :: jsval

text \<open>
  The third parameter of \<^verbatim>\<open>overrideProperty\<close> has the type
  \<^verbatim>\<open>Omit<SpringBootPropertyOverride<T>, 'property' | 'value'>\<close>. As for the modules, an
  object with the keys \<^verbatim>\<open>property\<close> and \<^verbatim>\<open>value\<close> is assignable to it (a whole
  \<^verbatim>\<open>SpringBootPropertyOverride\<close> is), so the argument is modelled with the declared keys
  and with the own keys \<^verbatim>\<open>property\<close> and \<^verbatim>\<open>value\<close> it may carry.
\<close>

record SpringBootPropertyOverrideArgument = SpringBootPropertyOverrideOptions +
  propertyKey :: "string option"
  valueKey :: "jsval option"

subsection \<open>Dependencies\<close>

datatype dependency_scope = Compile | Runtime | Test | Provided

record coordinates =
  groupId :: string
  artifactId :: string

record SpringBootDependencyConfig = coordinates +
  version :: "string option"
  scope :: "dependency_scope option"
  optional :: "bool option"
  exclusions :: "coordinates list option"

subsection \<open>The injector\<close>

record SpringBootModuleInjector =
  modules :: "SpringBootModuleConfig list"
  propertyOverrides :: "SpringBootPropertyOverride list"
  dependencies :: "SpringBootDependencyConfig list"

definition createSpringBootInjector :: SpringBootModuleInjector where
  "createSpringBootInjector = \<lparr> modules = [], propertyOverrides = [], dependencies = [] \<rparr>"

text \<open>
  \<^verbatim>\<open>injectModule(module, config = { enabled: true })\<close> pushes \<^verbatim>\<open>{ module, ...config }\<close>.
  The default stands for the whole parameter: it is used when the argument is omitted,
  and a given argument is taken as it is. The spread comes after \<^verbatim>\<open>module\<close>, so a key
  \<^verbatim>\<open>module\<close> of the argument replaces the identifier.
\<close>

definition defaultModuleOptions :: SpringBootModuleArgument where
  "defaultModuleOptions = \<lparr> enabled = True, config = None, priority = None, moduleKey = None \<rparr>"

definition injectModule ::
  "string \<Rightarrow> SpringBootModuleArgument option \<Rightarrow> SpringBootModuleInjector \<Rightarrow> SpringBootModuleInjector"
where
  "injectModule m cfg self =
     (let c = (case cfg of None \<Rightarrow> defaultModuleOptions | Some c \<Rightarrow> c)
      in self\<lparr> modules := modules self @
           [\<lparr> enabled = enabled c, config = config c, priority = priority c,
              module = (case moduleKey c of None \<Rightarrow> m | Some own \<Rightarrow> own) \<rparr>] \<rparr>)"

text \<open>
  \<^verbatim>\<open>overrideProperty(property, value, options = {})\<close> pushes
  \<^verbatim>\<open>{ property, value, ...options }\<close>: the keys \<^verbatim>\<open>property\<close> and \<^verbatim>\<open>value\<close> of the
  options, when they are there, replace the first two arguments.
\<close>

definition defaultOverrideOptions :: SpringBootPropertyOverrideArgument where
  "defaultOverrideOptions =
     \<lparr> type = None, override = None, profiles = None, propertyKey = None, valueKey = None \<rparr>"

definition overrideProperty ::
  "string \<Rightarrow> jsval \<Rightarrow> SpringBootPropertyOverrideArgument option \<Rightarrow>
     SpringBootModuleInjector \<Rightarrow> SpringBootModuleInjector"
where
  "overrideProperty p v opts self =
     (let options = (case opts of None \<Rightarrow> defaultOverrideOptions | Some given \<Rightarrow> given)
      in self\<lparr> propertyOverrides := propertyOverrides self @
           [\<lparr> type = type options, override = override options, profiles = profiles options,
              property = (case propertyKey options of None \<Rightarrow> p | Some own \<Rightarrow> own),
              value = (case valueKey options of None \<Rightarrow> v | Some own \<Rightarrow> own) \<rparr>] \<rparr>)"

definition addDependency ::
  "SpringBootDependencyConfig \<Rightarrow> SpringBootModuleInjector \<Rightarrow> SpringBootModuleInjector"
where
  "addDependency dep self = self\<lparr> dependencies := dependencies self @ [dep] \<rparr>"

definition getModules :: "SpringBootModuleInjector \<Rightarrow> SpringBootModuleConfig list" where
  "getModules self = modules self"

definition getPropertyOverrides :: "SpringBootModuleInjector \<Rightarrow> SpringBootPropertyOverride list" where
  "getPropertyOverrides self = propertyOverrides self"

definition getDependencies :: "SpringBootModuleInjector \<Rightarrow> SpringBootDependencyConfig list" where
  "getDependencies self = dependencies self"


section \<open>Applying the injector to a generator\<close>

text \<open>
  The generator is the target of \<^verbatim>\<open>applyTo\<close>. Its \<^verbatim>\<open>jhipsterConfig\<close> is an object; the
  dependency map is the object under the key \<^verbatim>\<open>springBootDependencies\<close> of that same
  object. \<^verbatim>\<open>composeWithJHipster\<close> belongs to the generator: it is a parameter here, a
  function of the generator's state that returns the state it leaves and, when the
  promise is rejected, the value it is rejected with.

  Every function returns, beside the state, the list of the effects it had on the
  target, in the order they happened.
\<close>

record generator =
  jhipsterConfig :: js_object

record compose_options =
  generatorOptions :: "js_object option"

type_synonym 'g composeWithJHipster =
  "string \<Rightarrow> compose_options \<Rightarrow> 'g \<Rightarrow> js_exception option \<times> 'g"

datatype effect =
    ComposeWith string compose_options
  | SetConfig string jsval
  | SetDependency string jsval

definition assignConfig ::
  "string \<Rightarrow> jsval \<Rightarrow> 'a generator_scheme \<Rightarrow> 'a generator_scheme"
where
  "assignConfig k v g = g\<lparr> jhipsterConfig := set_property k v (jhipsterConfig g) \<rparr>"

definition composeCall :: "SpringBootModuleConfig \<Rightarrow> effect" where
  "composeCall m = ComposeWith (module m) \<lparr> generatorOptions = config m \<rparr>"

fun composeEnabledModules ::
  "'g composeWithJHipster \<Rightarrow> SpringBootModuleConfig list \<Rightarrow> 'g \<Rightarrow>
     js_exception option \<times> 'g \<times> effect list"
where
  "composeEnabledModules c [] g = (None, g, [])"
| "composeEnabledModules c (m # ms) g =
     (if enabled m then
        (case c (module m) \<lparr> generatorOptions = config m \<rparr> g of
           (Some e, g') \<Rightarrow> (Some e, g', [composeCall m])
         | (None, g') \<Rightarrow>
             (case composeEnabledModules c ms g' of
                (r, g'', es) \<Rightarrow> (r, g'', composeCall m # es)))
      else composeEnabledModules c ms g)"

fun applyProfiles ::
  "string \<Rightarrow> (string \<times> jsval) list \<Rightarrow> 'a generator_scheme \<Rightarrow>
     'a generator_scheme \<times> effect list"
where
  "applyProfiles p [] g = (g, [])"
| "applyProfiles p ((profile, profileValue) # rest) g =
     (case applyProfiles p rest (assignConfig (p @ ''@'' @ profile) profileValue g) of
        (g', es) \<Rightarrow> (g', SetConfig (p @ ''@'' @ profile) profileValue # es))"

definition applyPropertyOverride ::
  "SpringBootPropertyOverride \<Rightarrow> 'a generator_scheme \<Rightarrow> 'a generator_scheme \<times> effect list"
where
  "applyPropertyOverride propOverride g =
     (let g1 = assignConfig (property propOverride) (value propOverride) g
      in case profiles propOverride of
           None \<Rightarrow> (g1, [SetConfig (property propOverride) (value propOverride)])
         | Some ps \<Rightarrow>
             (case applyProfiles (property propOverride) (Object_entries ps) g1 of
                (g2, es) \<Rightarrow> (g2, SetConfig (property propOverride) (value propOverride) # es)))"

definition dependencyKey :: "SpringBootDependencyConfig \<Rightarrow> string" where
  "dependencyKey dep = groupId dep @ '':'' @ artifactId dep"

definition dependencyVersion :: "SpringBootDependencyConfig \<Rightarrow> jsval" where
  "dependencyVersion dep = JStr (case version dep of None \<Rightarrow> ''BOM'' | Some v \<Rightarrow> v)"

definition addDependencyToGenerator ::
  "SpringBootDependencyConfig \<Rightarrow> 'a generator_scheme \<Rightarrow>
     js_exception option \<times> 'a generator_scheme \<times> effect list"
where
  "addDependencyToGenerator dep g =
     (let (g1, es1) =
            (if \<not> truthy (get_property (jhipsterConfig g) ''springBootDependencies'')
             then (assignConfig ''springBootDependencies'' (JObj []) g,
                   [SetConfig ''springBootDependencies'' (JObj [])])
             else (g, []))
      in case get_property (jhipsterConfig g1) ''springBootDependencies'' of
           JObj deps \<Rightarrow>
             (None,
              assignConfig ''springBootDependencies''
                (JObj (set_property (dependencyKey dep) (dependencyVersion dep) deps)) g1,
              es1 @ [SetDependency (dependencyKey dep) (dependencyVersion dep)])
         | _ \<Rightarrow> (Some TypeError, g1, es1))"

fun applyPropertyOverrides ::
  "SpringBootPropertyOverride list \<Rightarrow> 'a generator_scheme \<Rightarrow>
     'a generator_scheme \<times> effect list"
where
  "applyPropertyOverrides [] g = (g, [])"
| "applyPropertyOverrides (propOverride # rest) g =
     (case applyPropertyOverride propOverride g of
        (g1, es1) \<Rightarrow>
          (case applyPropertyOverrides rest g1 of (g2, es2) \<Rightarrow> (g2, es1 @ es2)))"

fun addDependencies ::
  "SpringBootDependencyConfig list \<Rightarrow> 'a generator_scheme \<Rightarrow>
     js_exception option \<times> 'a generator_scheme \<times> effect list"
where
  "addDependencies [] g = (None, g, [])"
| "addDependencies (dep # rest) g =
     (case addDependencyToGenerator dep g of
        (Some e, g1, es1) \<Rightarrow> (Some e, g1, es1)
      | (None, g1, es1) \<Rightarrow>
          (case addDependencies rest g1 of (r, g2, es2) \<Rightarrow> (r, g2, es1 @ es2)))"

definition modulePriority :: "SpringBootModuleConfig \<Rightarrow> int" where
  "modulePriority m = (case priority m of None \<Rightarrow> 0 | Some p \<Rightarrow> p)"

definition applyTo ::
  "'a generator_scheme composeWithJHipster \<Rightarrow> SpringBootModuleInjector \<Rightarrow>
     'a generator_scheme \<Rightarrow> js_exception option \<times> 'a generator_scheme \<times> effect list"
where
  "applyTo c self g =
     (let sortedModules =
            array_sort (\<lambda>a b. modulePriority a - modulePriority b) (modules self)
      in case composeEnabledModules c sortedModules g of
           (Some e, g1, es1) \<Rightarrow> (Some e, g1, es1)
         | (None, g1, es1) \<Rightarrow>
             (case applyPropertyOverrides (propertyOverrides self) g1 of
                (g2, es2) \<Rightarrow>
                  (case addDependencies (dependencies self) g2 of
                     (r, g3, es3) \<Rightarrow> (r, g3, es1 @ es2 @ es3))))"

text \<open>The two kinds of effect the properties below tell apart.\<close>

fun isComposeWith :: "effect \<Rightarrow> bool" where
  "isComposeWith (ComposeWith m opts) = True"
| "isComposeWith (SetConfig k v) = False"
| "isComposeWith (SetDependency k v) = False"

fun isSetDependency :: "effect \<Rightarrow> bool" where
  "isSetDependency (ComposeWith m opts) = False"
| "isSetDependency (SetConfig k v) = False"
| "isSetDependency (SetDependency k v) = True"


section \<open>The injector as an object with three arrays\<close>

text \<open>
  In the source the injector holds references to three arrays, and an accessor returns
  \<^verbatim>\<open>[...this.modules]\<close>: a new array with the same elements. Whether two arrays are the
  same array is a question about addresses, so here the arrays live in a store, one
  heap per element type; an address is an index into the heap, and a new array is
  allocated at the end. The elements are stored as values: what is modelled is the
  sharing of arrays, not of the objects in them.
\<close>

record store =
  moduleArrays :: "SpringBootModuleConfig list list"
  overrideArrays :: "SpringBootPropertyOverride list list"
  dependencyArrays :: "SpringBootDependencyConfig list list"

record injector_object =
  modulesRef :: nat
  propertyOverridesRef :: nat
  dependenciesRef :: nat

definition array_alloc :: "'a list \<Rightarrow> 'a list list \<Rightarrow> nat \<times> 'a list list" where
  "array_alloc xs h = (length h, h @ [xs])"

definition array_read :: "'a list list \<Rightarrow> nat \<Rightarrow> 'a list" where
  "array_read h a = h ! a"

text \<open>Any mutation of the array at an address leaves some new contents there.\<close>

definition array_write :: "nat \<Rightarrow> 'a list \<Rightarrow> 'a list list \<Rightarrow> 'a list list" where
  "array_write a ys h = h[a := ys]"

definition array_push :: "nat \<Rightarrow> 'a \<Rightarrow> 'a list list \<Rightarrow> 'a list list" where
  "array_push a x h = array_write a (array_read h a @ [x]) h"

text \<open>The references of an injector point into the store.\<close>

definition valid_injector :: "injector_object \<Rightarrow> store \<Rightarrow> bool" where
  "valid_injector self s =
     (modulesRef self < length (moduleArrays s)
      \<and> propertyOverridesRef self < length (overrideArrays s)
      \<and> dependenciesRef self < length (dependencyArrays s))"

text \<open>\<^verbatim>\<open>new SpringBootModuleInjector()\<close>: the field initialisers allocate three empty arrays.\<close>

definition newInjector :: "store \<Rightarrow> injector_object \<times> store" where
  "newInjector s =
     (case array_alloc [] (moduleArrays s) of (am, hmod) \<Rightarrow>
      case array_alloc [] (overrideArrays s) of (ao, hov) \<Rightarrow>
      case array_alloc [] (dependencyArrays s) of (ad, hdep) \<Rightarrow>
        (\<lparr> modulesRef = am, propertyOverridesRef = ao, dependenciesRef = ad \<rparr>,
         \<lparr> moduleArrays = hmod, overrideArrays = hov, dependencyArrays = hdep \<rparr>))"

definition injectModule_store ::
  "string \<Rightarrow> SpringBootModuleArgument option \<Rightarrow> injector_object \<Rightarrow> store \<Rightarrow> store"
where
  "injectModule_store m cfg self s =
     (let c = (case cfg of None \<Rightarrow> defaultModuleOptions | Some c \<Rightarrow> c)
      in s\<lparr> moduleArrays := array_push (modulesRef self)
             \<lparr> enabled = enabled c, config = config c, priority = priority c,
               module = (case moduleKey c of None \<Rightarrow> m | Some own \<Rightarrow> own) \<rparr>
             (moduleArrays s) \<rparr>)"

definition overrideProperty_store ::
  "string \<Rightarrow> jsval \<Rightarrow> SpringBootPropertyOverrideArgument option \<Rightarrow>
     injector_object \<Rightarrow> store \<Rightarrow> store"
where
  "overrideProperty_store p v opts self s =
     (let options = (case opts of None \<Rightarrow> defaultOverrideOptions | Some given \<Rightarrow> given)
      in s\<lparr> overrideArrays := array_push (propertyOverridesRef self)
             \<lparr> type = type options, override = override options, profiles = profiles options,
               property = (case propertyKey options of None \<Rightarrow> p | Some own \<Rightarrow> own),
               value = (case valueKey options of None \<Rightarrow> v | Some own \<Rightarrow> own) \<rparr>
             (overrideArrays s) \<rparr>)"

definition addDependency_store ::
  "SpringBootDependencyConfig \<Rightarrow> injector_object \<Rightarrow> store \<Rightarrow> store"
where
  "addDependency_store dep self s =
     s\<lparr> dependencyArrays := array_push (dependenciesRef self) dep (dependencyArrays s) \<rparr>"

text \<open>The accessors return the address of the new array.\<close>

definition getModules_store :: "injector_object \<Rightarrow> store \<Rightarrow> nat \<times> store" where
  "getModules_store self s =
     (case array_alloc (array_read (moduleArrays s) (modulesRef self)) (moduleArrays s) of
        (a, h) \<Rightarrow> (a, s\<lparr> moduleArrays := h \<rparr>))"

definition getPropertyOverrides_store :: "injector_object \<Rightarrow> store \<Rightarrow> nat \<times> store" where
  "getPropertyOverrides_store self s =
     (case array_alloc (array_read (overrideArrays s) (propertyOverridesRef self))
             (overrideArrays s) of
        (a, h) \<Rightarrow> (a, s\<lparr> overrideArrays := h \<rparr>))"

definition getDependencies_store :: "injector_object \<Rightarrow> store \<Rightarrow> nat \<times> store" where
  "getDependencies_store self s =
     (case array_alloc (array_read (dependencyArrays s) (dependenciesRef self))
             (dependencyArrays s) of
        (a, h) \<Rightarrow> (a, s\<lparr> dependencyArrays := h \<rparr>))"

text \<open>The calls that mutate an injector, and a chain of them.\<close>

datatype mutation =
    InjectModule string "SpringBootModuleArgument option"
  | OverrideProperty string jsval "SpringBootPropertyOverrideArgument option"
  | AddDependency SpringBootDependencyConfig

fun mutate :: "mutation \<Rightarrow> SpringBootModuleInjector \<Rightarrow> SpringBootModuleInjector" where
  "mutate (InjectModule m cfg) self = injectModule m cfg self"
| "mutate (OverrideProperty p v opts) self = overrideProperty p v opts self"
| "mutate (AddDependency dep) self = addDependency dep self"

fun mutate_store :: "injector_object \<Rightarrow> mutation \<Rightarrow> store \<Rightarrow> store" where
  "mutate_store self (InjectModule m cfg) s = injectModule_store m cfg self s"
| "mutate_store self (OverrideProperty p v opts) s = overrideProperty_store p v opts self s"
| "mutate_store self (AddDependency dep) s = addDependency_store dep self s"

text \<open>The state of an injector: the contents of its three arrays.\<close>

definition injector_state :: "injector_object \<Rightarrow> store \<Rightarrow> SpringBootModuleInjector" where
  "injector_state self s =
     \<lparr> modules = array_read (moduleArrays s) (modulesRef self),
       propertyOverrides = array_read (overrideArrays s) (propertyOverridesRef self),
       dependencies = array_read (dependencyArrays s) (dependenciesRef self) \<rparr>"


section \<open>Properties of the built-in sort\<close>

lemma sort_insert_insort_key:
  "sort_insert (\<lambda>a b. f a - f b) x ys = insort_key f x ys"
  by (induction ys) auto

lemma array_sort_sort_key:
  "array_sort (\<lambda>a b. f a - f b) xs = sort_key f xs"
  by (induction xs) (simp_all add: array_sort_def sort_key_def sort_insert_insort_key)


section \<open>Properties of the module loop\<close>

lemma composeEnabledModules_filter:
  "composeEnabledModules c (filter enabled ms) g = composeEnabledModules c ms g"
  by (induction ms arbitrary: g) (auto split: prod.splits option.splits)

lemma composeEnabledModules_effects:
  "composeEnabledModules c ms g = (r, g', es) \<Longrightarrow>
     prefix es (map composeCall (filter enabled ms))
     \<and> (r = None \<longrightarrow> es = map composeCall (filter enabled ms))"
  by (induction ms arbitrary: g r g' es) (auto split: prod.splits option.splits if_splits)

lemma filter_isComposeWith_composeCall:
  "filter isComposeWith (map composeCall ms) = map composeCall ms"
  by (induction ms) (auto simp: composeCall_def)

lemma filter_isComposeWith_prefix:
  assumes "prefix es (map composeCall ms)"
  shows "filter isComposeWith es = es"
proof -
  have "set es \<subseteq> set (map composeCall ms)"
    using assms by (rule set_mono_prefix)
  then have "\<forall>x\<in>set es. isComposeWith x"
    by (auto simp: composeCall_def)
  then show ?thesis by (simp add: filter_id_conv)
qed


section \<open>The write phases make no composition call\<close>

lemma applyProfiles_composeless:
  "applyProfiles p ps g = (g', es) \<Longrightarrow> filter isComposeWith es = []"
  by (induction ps arbitrary: g g' es) (auto split: prod.splits)

lemma applyPropertyOverride_composeless:
  "applyPropertyOverride ov g = (g', es) \<Longrightarrow> filter isComposeWith es = []"
  by (auto simp: applyPropertyOverride_def Let_def split: option.splits prod.splits
           dest: applyProfiles_composeless)

lemma applyPropertyOverrides_composeless:
  "applyPropertyOverrides ovs g = (g', es) \<Longrightarrow> filter isComposeWith es = []"
  by (induction ovs arbitrary: g g' es)
     (auto split: prod.splits dest: applyPropertyOverride_composeless)

lemma addDependencyToGenerator_composeless:
  "addDependencyToGenerator dep g = (r, g', es) \<Longrightarrow> filter isComposeWith es = []"
  by (auto simp: addDependencyToGenerator_def Let_def split: if_splits jsval.splits)

lemma addDependencies_composeless:
  "addDependencies ds g = (r, g', es) \<Longrightarrow> filter isComposeWith es = []"
  by (induction ds arbitrary: g r g' es)
     (auto split: prod.splits option.splits dest: addDependencyToGenerator_composeless)


section \<open>Registration\<close>

lemma modules_foldl_injectModule:
  "modules (foldl (\<lambda>s (m, cfg). injectModule m cfg s) self calls) =
     modules self @
     map (\<lambda>(m, cfg). case cfg of
            None \<Rightarrow> \<lparr> enabled = True, config = None, priority = None, module = m \<rparr>
          | Some c \<Rightarrow> \<lparr> enabled = enabled c, config = config c, priority = priority c,
                        module = (case moduleKey c of None \<Rightarrow> m | Some own \<Rightarrow> own) \<rparr>)
         calls"
  by (induction calls arbitrary: self)
     (auto simp: injectModule_def defaultModuleOptions_def Let_def split: option.splits)

lemma entries_without_moduleKey:
  assumes "list_all (\<lambda>(m, cfg). case cfg of None \<Rightarrow> True | Some c \<Rightarrow> moduleKey c = None) calls"
  shows "map (\<lambda>(m, cfg). case cfg of
            None \<Rightarrow> \<lparr> enabled = True, config = None, priority = None, module = m \<rparr>
          | Some c \<Rightarrow> \<lparr> enabled = enabled c, config = config c, priority = priority c,
                        module = (case moduleKey c of None \<Rightarrow> m | Some own \<Rightarrow> own) \<rparr>)
         calls =
       map (\<lambda>(m, cfg). case cfg of
            None \<Rightarrow> \<lparr> enabled = True, config = None, priority = None, module = m \<rparr>
          | Some c \<Rightarrow> \<lparr> enabled = enabled c, config = config c, priority = priority c,
                        module = m \<rparr>)
         calls"
  using assms by (induction calls) (auto split: option.splits)

text \<open>
  Claim C2, amended. For every sequence of \<^verbatim>\<open>injectModule\<close> calls on a new injector,
  \<^verbatim>\<open>getModules()\<close> returns as many entries as there were calls, in the order of the
  calls, and each entry has the fields of the config of its call: \<^verbatim>\<open>{enabled: true}\<close>
  when the config was omitted, and the fields of the given config otherwise (a config
  always has the field \<^verbatim>\<open>enabled\<close>, so every field of the default is overwritten by
  it). The identifier of the entry is the identifier of the call when the config carries
  no key \<^verbatim>\<open>module\<close> of its own; a key \<^verbatim>\<open>module\<close> of the config replaces the identifier
  of the call.
\<close>

theorem getModules_after_injectModule_calls:
  "getModules (foldl (\<lambda>s (m, cfg). injectModule m cfg s) createSpringBootInjector calls) =
     map (\<lambda>(m, cfg). case cfg of
            None \<Rightarrow> \<lparr> enabled = True, config = None, priority = None, module = m \<rparr>
          | Some c \<Rightarrow> \<lparr> enabled = enabled c, config = config c, priority = priority c,
                        module = (case moduleKey c of None \<Rightarrow> m | Some own \<Rightarrow> own) \<rparr>)
         calls
   \<and> length (getModules
        (foldl (\<lambda>s (m, cfg). injectModule m cfg s) createSpringBootInjector calls)) =
     length calls
   \<and> (list_all (\<lambda>(m, cfg). case cfg of None \<Rightarrow> True | Some c \<Rightarrow> moduleKey c = None) calls \<longrightarrow>
      getModules (foldl (\<lambda>s (m, cfg). injectModule m cfg s) createSpringBootInjector calls) =
        map (\<lambda>(m, cfg). case cfg of
               None \<Rightarrow> \<lparr> enabled = True, config = None, priority = None, module = m \<rparr>
             | Some c \<Rightarrow> \<lparr> enabled = enabled c, config = config c, priority = priority c,
                           module = m \<rparr>)
            calls)"
  using entries_without_moduleKey [of calls]
  by (simp add: getModules_def modules_foldl_injectModule createSpringBootInjector_def)

theorem getModules_after_injectModule_calls_witness:
  "list_all (\<lambda>(m, cfg). case cfg of None \<Rightarrow> True | Some c \<Rightarrow> moduleKey c = None)
     [(SPRING_BOOT_MODULES_JWT, None),
      (SPRING_DATA_MODULES_MONGODB,
       Some \<lparr> enabled = False, config = Some [(''customOption'', JStr ''value'')],
                priority = Some 10, moduleKey = None \<rparr>)]
   \<and> getModules (foldl (\<lambda>s (m, cfg). injectModule m cfg s) createSpringBootInjector
     [(SPRING_BOOT_MODULES_JWT, None),
      (SPRING_DATA_MODULES_MONGODB,
       Some \<lparr> enabled = False, config = Some [(''customOption'', JStr ''value'')],
                priority = Some 10, moduleKey = None \<rparr>)]) =
     [\<lparr> enabled = True, config = None, priority = None, module = ''jhipster:spring-boot:jwt'' \<rparr>,
      \<lparr> enabled = False, config = Some [(''customOption'', JStr ''value'')],
         priority = Some 10, module = ''jhipster:spring-data:mongodb'' \<rparr>]"
proof -
  let ?calls = "[(SPRING_BOOT_MODULES_JWT, None),
      (SPRING_DATA_MODULES_MONGODB,
       Some \<lparr> enabled = False, config = Some [(''customOption'', JStr ''value'')],
                priority = Some 10, moduleKey = None \<rparr>)]"
  have plain: "list_all (\<lambda>(m, cfg). case cfg of None \<Rightarrow> True | Some c \<Rightarrow> moduleKey c = None)
     ?calls"
    by simp
  from getModules_after_injectModule_calls [of ?calls] plain
  have "getModules (foldl (\<lambda>s (m, cfg). injectModule m cfg s) createSpringBootInjector ?calls) =
        map (\<lambda>(m, cfg). case cfg of
               None \<Rightarrow> \<lparr> enabled = True, config = None, priority = None, module = m \<rparr>
             | Some c \<Rightarrow> \<lparr> enabled = enabled c, config = config c, priority = priority c,
                           module = m \<rparr>)
            ?calls"
    by blast
  then have "getModules (foldl (\<lambda>s (m, cfg). injectModule m cfg s) createSpringBootInjector ?calls) =
     [\<lparr> enabled = True, config = None, priority = None, module = ''jhipster:spring-boot:jwt'' \<rparr>,
      \<lparr> enabled = False, config = Some [(''customOption'', JStr ''value'')],
         priority = Some 10, module = ''jhipster:spring-data:mongodb'' \<rparr>]"
    by (simp add: SPRING_BOOT_MODULES_JWT_def SPRING_DATA_MODULES_MONGODB_def)
  with plain show ?thesis
    by (rule conjI)
qed

text \<open>
  Claim C2 as it was stated fails on a config that carries a key \<^verbatim>\<open>module\<close>: registering
  the identifier \<^verbatim>\<open>jhipster:spring-boot:jwt\<close> with the entry of another injector as config
  (\<^verbatim>\<open>SpringBoot.oauth2().getModules()[0]\<close>, which the parameter type accepts) stores an
  entry whose identifier is \<^verbatim>\<open>jhipster:spring-boot:oauth2\<close>.
\<close>

theorem getModules_identifier_counterexample:
  "getModules (injectModule SPRING_BOOT_MODULES_JWT
       (Some \<lparr> enabled = True, config = None, priority = None,
                moduleKey = Some SPRING_BOOT_MODULES_OAUTH2 \<rparr>)
       createSpringBootInjector) =
     [\<lparr> enabled = True, config = None, priority = None,
        module = ''jhipster:spring-boot:oauth2'' \<rparr>]
   \<and> map module (getModules (injectModule SPRING_BOOT_MODULES_JWT
       (Some \<lparr> enabled = True, config = None, priority = None,
                moduleKey = Some SPRING_BOOT_MODULES_OAUTH2 \<rparr>)
       createSpringBootInjector)) \<noteq> [SPRING_BOOT_MODULES_JWT]"
  by (simp add: getModules_def injectModule_def createSpringBootInjector_def
        SPRING_BOOT_MODULES_JWT_def SPRING_BOOT_MODULES_OAUTH2_def)


section \<open>Applying\<close>

text \<open>
  Claim C8. On an injector with no module, no property override and no dependency,
  \<^verbatim>\<open>applyTo\<close> makes no composition call and no write (the list of effects is empty and
  the generator is left as it was), and it completes without an exception.
\<close>

theorem applyTo_without_registrations:
  "applyTo c createSpringBootInjector g = (None, g, [])"
  by (simp add: applyTo_def createSpringBootInjector_def array_sort_def)

lemma applyTo_compose_calls:
  "prefix (filter isComposeWith (snd (snd (applyTo c self g))))
          (map composeCall (sort_key modulePriority (filter enabled (modules self))))
   \<and> (fst (applyTo c self g) = None \<longrightarrow>
        filter isComposeWith (snd (snd (applyTo c self g))) =
        map composeCall (sort_key modulePriority (filter enabled (modules self))))"
proof -
  let ?sorted = "array_sort (\<lambda>a b. modulePriority a - modulePriority b) (modules self)"
  let ?plan = "sort_key modulePriority (filter enabled (modules self))"
  have plan: "filter enabled ?sorted = ?plan"
    by (simp add: array_sort_sort_key filter_sort)
  obtain r g1 es1 where loop: "composeEnabledModules c ?sorted g = (r, g1, es1)"
    by (cases "composeEnabledModules c ?sorted g") auto
  from composeEnabledModules_effects [OF loop]
  have pre: "prefix es1 (map composeCall ?plan)"
    and full: "r = None \<Longrightarrow> es1 = map composeCall ?plan"
    by (simp_all add: plan)
  show ?thesis
  proof (cases r)
    case (Some e)
    then have "applyTo c self g = (Some e, g1, es1)"
      by (simp add: applyTo_def loop)
    then show ?thesis
      using pre by (simp add: filter_isComposeWith_prefix)
  next
    case None
    obtain g2 es2 where ovs: "applyPropertyOverrides (propertyOverrides self) g1 = (g2, es2)"
      by (cases "applyPropertyOverrides (propertyOverrides self) g1") auto
    obtain r3 g3 es3 where deps: "addDependencies (dependencies self) g2 = (r3, g3, es3)"
      by (cases "addDependencies (dependencies self) g2") auto
    have res: "applyTo c self g = (r3, g3, es1 @ es2 @ es3)"
      using None by (simp add: applyTo_def loop ovs deps)
    have "filter isComposeWith (es1 @ es2 @ es3) = map composeCall ?plan"
      using full [OF None] applyPropertyOverrides_composeless [OF ovs]
        addDependencies_composeless [OF deps]
      by (simp add: filter_isComposeWith_composeCall)
    then show ?thesis
      by (simp add: res)
  qed
qed

lemma invoke_stopped:
  "foldl (\<lambda>(r, g', es) m. case r of
             Some e \<Rightarrow> (Some e, g', es)
           | None \<Rightarrow> (case c (module m) \<lparr> generatorOptions = config m \<rparr> g' of
                        (r', g'') \<Rightarrow>
                          (r', g'', es @ [ComposeWith (module m) \<lparr> generatorOptions = config m \<rparr>])))
         (Some e, g, acc) ms = (Some e, g, acc)"
  by (induction ms) simp_all

lemma composeEnabledModules_invoke:
  "list_all enabled ms \<Longrightarrow>
   foldl (\<lambda>(r, g', es) m. case r of
             Some e \<Rightarrow> (Some e, g', es)
           | None \<Rightarrow> (case c (module m) \<lparr> generatorOptions = config m \<rparr> g' of
                        (r', g'') \<Rightarrow>
                          (r', g'', es @ [ComposeWith (module m) \<lparr> generatorOptions = config m \<rparr>])))
         (None, g, acc) ms =
     (case composeEnabledModules c ms g of (r, g1, es) \<Rightarrow> (r, g1, acc @ es))"
proof (induction ms arbitrary: g acc)
  case Nil
  then show ?case by simp
next
  case (Cons m ms)
  obtain r g1 where call: "c (module m) \<lparr> generatorOptions = config m \<rparr> g = (r, g1)"
    by (cases "c (module m) \<lparr> generatorOptions = config m \<rparr> g") auto
  from Cons.prems have en: "enabled m" and rest: "list_all enabled ms"
    by simp_all
  show ?case
  proof (cases r)
    case None
    with call en Cons.IH [OF rest, of g1 "acc @ [composeCall m]"] show ?thesis
      by (simp add: composeCall_def case_prod_beta)
  next
    case (Some e)
    with call en show ?thesis
      by (simp add: invoke_stopped composeCall_def)
  qed
qed

lemma applyTo_invokes:
  "applyTo c self g =
     (case foldl (\<lambda>(r, g', es) m. case r of
                    Some e \<Rightarrow> (Some e, g', es)
                  | None \<Rightarrow> (case c (module m) \<lparr> generatorOptions = config m \<rparr> g' of
                        (r', g'') \<Rightarrow>
                          (r', g'', es @ [ComposeWith (module m) \<lparr> generatorOptions = config m \<rparr>])))
             (None, g, []) (sort_key modulePriority (filter enabled (modules self))) of
        (Some e, g1, es1) \<Rightarrow> (Some e, g1, es1)
      | (None, g1, es1) \<Rightarrow>
          (case applyPropertyOverrides (propertyOverrides self) g1 of
             (g2, es2) \<Rightarrow>
               (case addDependencies (dependencies self) g2 of
                  (r, g3, es3) \<Rightarrow> (r, g3, es1 @ es2 @ es3))))"
proof -
  let ?sorted = "array_sort (\<lambda>a b. modulePriority a - modulePriority b) (modules self)"
  let ?plan = "sort_key modulePriority (filter enabled (modules self))"
  have plan: "filter enabled ?sorted = ?plan"
    by (simp add: array_sort_sort_key filter_sort)
  have "list_all enabled ?plan"
    by (simp add: list_all_iff)
  from composeEnabledModules_invoke [OF this, of c g "[]"]
  have "foldl (\<lambda>(r, g', es) m. case r of
                    Some e \<Rightarrow> (Some e, g', es)
                  | None \<Rightarrow> (case c (module m) \<lparr> generatorOptions = config m \<rparr> g' of
                        (r', g'') \<Rightarrow>
                          (r', g'', es @ [ComposeWith (module m) \<lparr> generatorOptions = config m \<rparr>])))
             (None, g, []) ?plan = composeEnabledModules c ?sorted g"
    using composeEnabledModules_filter [of c ?sorted g] by (simp add: plan)
  then show ?thesis
    by (simp add: applyTo_def)
qed

text \<open>
  Claim C1. \<^verbatim>\<open>applyTo\<close> calls \<^verbatim>\<open>composeWithJHipster\<close> for the enabled requests only, in
  ascending order of priority (a missing priority counts as 0), and requests of equal
  priority are called in the order of their registration. \<^verbatim>\<open>applyTo\<close> is what one gets
  by applying \<^verbatim>\<open>composeWithJHipster\<close> to the enabled requests in that order, each call on
  the state the call before it left and with the identifier and the options of its
  request, up to the first call that is rejected, and by going on to the overrides and
  the dependencies when none is. The enabled requests in that order are ascending in
  priority, and for every priority \<open>k\<close> the requests of priority \<open>k\<close> stand in it as they
  stand among the registered enabled requests; the calls made are a prefix of the calls
  for that list (a rejected call ends them), and all of them when \<^verbatim>\<open>applyTo\<close>
  completes. For A (priority 2), B (1), C (1), registered in this order, the calls are
  B, C, A.
\<close>

theorem applyTo_composes_enabled_by_priority:
  "modulePriority m = (case priority m of None \<Rightarrow> 0 | Some p \<Rightarrow> p)
   \<and> applyTo c self g =
     (case foldl (\<lambda>(r, g', es) m. case r of
                    Some e \<Rightarrow> (Some e, g', es)
                  | None \<Rightarrow> (case c (module m) \<lparr> generatorOptions = config m \<rparr> g' of
                        (r', g'') \<Rightarrow>
                          (r', g'', es @ [ComposeWith (module m) \<lparr> generatorOptions = config m \<rparr>])))
             (None, g, []) (sort_key modulePriority (filter enabled (modules self))) of
        (Some e, g1, es1) \<Rightarrow> (Some e, g1, es1)
      | (None, g1, es1) \<Rightarrow>
          (case applyPropertyOverrides (propertyOverrides self) g1 of
             (g2, es2) \<Rightarrow>
               (case addDependencies (dependencies self) g2 of
                  (r, g3, es3) \<Rightarrow> (r, g3, es1 @ es2 @ es3))))
   \<and> sorted (map modulePriority (sort_key modulePriority (filter enabled (modules self))))
   \<and> (\<forall>k. filter (\<lambda>m. modulePriority m = k)
              (sort_key modulePriority (filter enabled (modules self))) =
            filter (\<lambda>m. modulePriority m = k) (filter enabled (modules self)))
   \<and> prefix (filter isComposeWith (snd (snd (applyTo c self g))))
            (map composeCall (sort_key modulePriority (filter enabled (modules self))))
   \<and> (fst (applyTo c self g) = None \<longrightarrow>
        filter isComposeWith (snd (snd (applyTo c self g))) =
        map composeCall (sort_key modulePriority (filter enabled (modules self))))
   \<and> (fst (applyTo c
              (injectModule ''C'' (Some \<lparr> enabled = True, config = None, priority = Some 1, moduleKey = None \<rparr>)
              (injectModule ''B'' (Some \<lparr> enabled = True, config = None, priority = Some 1, moduleKey = None \<rparr>)
              (injectModule ''A'' (Some \<lparr> enabled = True, config = None, priority = Some 2, moduleKey = None \<rparr>)
                 createSpringBootInjector))) g) = None \<longrightarrow>
        filter isComposeWith (snd (snd (applyTo c
              (injectModule ''C'' (Some \<lparr> enabled = True, config = None, priority = Some 1, moduleKey = None \<rparr>)
              (injectModule ''B'' (Some \<lparr> enabled = True, config = None, priority = Some 1, moduleKey = None \<rparr>)
              (injectModule ''A'' (Some \<lparr> enabled = True, config = None, priority = Some 2, moduleKey = None \<rparr>)
                 createSpringBootInjector))) g))) =
        [ComposeWith ''B'' \<lparr> generatorOptions = None \<rparr>,
         ComposeWith ''C'' \<lparr> generatorOptions = None \<rparr>,
         ComposeWith ''A'' \<lparr> generatorOptions = None \<rparr>])"
proof -
  let ?ex = "injectModule ''C'' (Some \<lparr> enabled = True, config = None, priority = Some 1, moduleKey = None \<rparr>)
              (injectModule ''B'' (Some \<lparr> enabled = True, config = None, priority = Some 1, moduleKey = None \<rparr>)
              (injectModule ''A'' (Some \<lparr> enabled = True, config = None, priority = Some 2, moduleKey = None \<rparr>)
                 createSpringBootInjector))"
  have ex: "map composeCall (sort_key modulePriority (filter enabled (modules ?ex))) =
        [ComposeWith ''B'' \<lparr> generatorOptions = None \<rparr>,
         ComposeWith ''C'' \<lparr> generatorOptions = None \<rparr>,
         ComposeWith ''A'' \<lparr> generatorOptions = None \<rparr>]"
    by (simp add: injectModule_def createSpringBootInjector_def modulePriority_def composeCall_def)
  have general: "prefix (filter isComposeWith (snd (snd (applyTo c self g))))
            (map composeCall (sort_key modulePriority (filter enabled (modules self))))
   \<and> (fst (applyTo c self g) = None \<longrightarrow>
        filter isComposeWith (snd (snd (applyTo c self g))) =
        map composeCall (sort_key modulePriority (filter enabled (modules self))))"
    by (rule applyTo_compose_calls)
  have example: "fst (applyTo c ?ex g) = None \<longrightarrow>
        filter isComposeWith (snd (snd (applyTo c ?ex g))) =
        [ComposeWith ''B'' \<lparr> generatorOptions = None \<rparr>,
         ComposeWith ''C'' \<lparr> generatorOptions = None \<rparr>,
         ComposeWith ''A'' \<lparr> generatorOptions = None \<rparr>]"
    using applyTo_compose_calls [of c ?ex g] unfolding ex by blast
  have stable: "\<forall>k. filter (\<lambda>m. modulePriority m = k)
              (sort_key modulePriority (filter enabled (modules self))) =
            filter (\<lambda>m. modulePriority m = k) (filter enabled (modules self))"
    by (simp only: sort_key_stable simp_thms)
  have ascending: "sorted (map modulePriority (sort_key modulePriority (filter enabled (modules self))))"
    by (rule sorted_sort_key)
  have default: "modulePriority m = (case priority m of None \<Rightarrow> 0 | Some p \<Rightarrow> p)"
    by (simp add: modulePriority_def)
  from default applyTo_invokes [of c self g] ascending stable general example show ?thesis
    by blast
qed

theorem applyTo_composes_enabled_by_priority_witness:
  "applyTo (\<lambda>m opts g. (None, assignConfig m (JBool True) g))
     (injectModule ''Z'' (Some \<lparr> enabled = True, config = None, priority = Some 5, moduleKey = None \<rparr>)
     (injectModule ''Y'' (Some \<lparr> enabled = True, config = None, priority = Some (- 1), moduleKey = None \<rparr>)
     (injectModule ''X'' (Some \<lparr> enabled = False, config = None, priority = Some 0, moduleKey = None \<rparr>)
     (injectModule ''Q'' (Some \<lparr> enabled = True, config = None, priority = Some 0, moduleKey = None \<rparr>)
     (injectModule ''W'' None
     (injectModule ''P'' (Some \<lparr> enabled = True, config = None, priority = Some 0, moduleKey = None \<rparr>)
     (injectModule ''V'' (Some \<lparr> enabled = True, config = None, priority = Some 5, moduleKey = None \<rparr>)
        createSpringBootInjector)))))))
     \<lparr> jhipsterConfig = [] \<rparr> =
   (None,
    \<lparr> jhipsterConfig = [(''Y'', JBool True), (''P'', JBool True), (''W'', JBool True),
                         (''Q'', JBool True), (''V'', JBool True), (''Z'', JBool True)] \<rparr>,
    [ComposeWith ''Y'' \<lparr> generatorOptions = None \<rparr>,
     ComposeWith ''P'' \<lparr> generatorOptions = None \<rparr>,
     ComposeWith ''W'' \<lparr> generatorOptions = None \<rparr>,
     ComposeWith ''Q'' \<lparr> generatorOptions = None \<rparr>,
     ComposeWith ''V'' \<lparr> generatorOptions = None \<rparr>,
     ComposeWith ''Z'' \<lparr> generatorOptions = None \<rparr>])"
proof -
  let ?c = "\<lambda>(m::string) (opts::compose_options) (g::generator).
              (None::js_exception option, assignConfig m (JBool True) g)"
  let ?self = "injectModule ''Z'' (Some \<lparr> enabled = True, config = None, priority = Some 5, moduleKey = None \<rparr>)
     (injectModule ''Y'' (Some \<lparr> enabled = True, config = None, priority = Some (- 1), moduleKey = None \<rparr>)
     (injectModule ''X'' (Some \<lparr> enabled = False, config = None, priority = Some 0, moduleKey = None \<rparr>)
     (injectModule ''Q'' (Some \<lparr> enabled = True, config = None, priority = Some 0, moduleKey = None \<rparr>)
     (injectModule ''W'' None
     (injectModule ''P'' (Some \<lparr> enabled = True, config = None, priority = Some 0, moduleKey = None \<rparr>)
     (injectModule ''V'' (Some \<lparr> enabled = True, config = None, priority = Some 5, moduleKey = None \<rparr>)
        createSpringBootInjector))))))"
  let ?g = "\<lparr> jhipsterConfig = [] \<rparr>"
  have plan: "sort_key modulePriority (filter enabled (modules ?self)) =
       [\<lparr> enabled = True, config = None, priority = Some (- 1), module = ''Y'' \<rparr>,
        \<lparr> enabled = True, config = None, priority = Some 0, module = ''P'' \<rparr>,
        \<lparr> enabled = True, config = None, priority = None, module = ''W'' \<rparr>,
        \<lparr> enabled = True, config = None, priority = Some 0, module = ''Q'' \<rparr>,
        \<lparr> enabled = True, config = None, priority = Some 5, module = ''V'' \<rparr>,
        \<lparr> enabled = True, config = None, priority = Some 5, module = ''Z'' \<rparr>]"
    by (simp add: injectModule_def createSpringBootInjector_def modulePriority_def
          defaultModuleOptions_def)
  have rest: "propertyOverrides ?self = []" "dependencies ?self = []"
    by (simp_all add: injectModule_def createSpringBootInjector_def)
  from applyTo_composes_enabled_by_priority [of _ ?c ?self ?g]
  have "applyTo ?c ?self ?g =
     (case foldl (\<lambda>(r, g', es) m. case r of
                    Some e \<Rightarrow> (Some e, g', es)
                  | None \<Rightarrow> (case ?c (module m) \<lparr> generatorOptions = config m \<rparr> g' of
                        (r', g'') \<Rightarrow>
                          (r', g'', es @ [ComposeWith (module m) \<lparr> generatorOptions = config m \<rparr>])))
             (None, ?g, []) (sort_key modulePriority (filter enabled (modules ?self))) of
        (Some e, g1, es1) \<Rightarrow> (Some e, g1, es1)
      | (None, g1, es1) \<Rightarrow>
          (case applyPropertyOverrides (propertyOverrides ?self) g1 of
             (g2, es2) \<Rightarrow>
               (case addDependencies (dependencies ?self) g2 of
                  (r, g3, es3) \<Rightarrow> (r, g3, es1 @ es2 @ es3))))"
    by (rule conjunct1 [OF conjunct2])
  then show ?thesis
    unfolding plan rest by (simp add: assignConfig_def set_property_def)
qed

lemma composeEnabledModules_append:
  "composeEnabledModules c pre g = (None, g1, es1) \<Longrightarrow>
     composeEnabledModules c (pre @ rest) g =
       (case composeEnabledModules c rest g1 of (r, g', es) \<Rightarrow> (r, g', es1 @ es))"
  by (induction pre arbitrary: g g1 es1) (auto split: prod.splits option.splits if_splits)

lemma list_all_isComposeWith_composeCall: "list_all isComposeWith (map composeCall ms)"
  by (induction ms) (simp_all add: composeCall_def)

text \<open>
  Claim C4. When a call of \<^verbatim>\<open>composeWithJHipster\<close> is rejected during \<^verbatim>\<open>applyTo\<close>, the
  exception is neither caught nor wrapped: \<^verbatim>\<open>applyTo\<close> ends with that same exception.
  The requests after the rejected one are not composed, and no property override and
  no dependency is applied: the effects are the calls up to the rejected one and
  nothing else, and the generator is left in the state the rejected call left it in
  (what the earlier calls did is not rolled back).
\<close>

theorem applyTo_compose_failure_aborts:
  assumes plan: "sort_key modulePriority (filter enabled (modules self)) = pre @ m # post"
    and before: "composeEnabledModules c pre g = (None, g1, es1)"
    and rejected: "c (module m) \<lparr> generatorOptions = config m \<rparr> g1 = (Some e, g2)"
  shows "applyTo c self g = (Some e, g2, map composeCall pre @ [composeCall m])
         \<and> list_all isComposeWith (snd (snd (applyTo c self g)))"
proof -
  let ?sorted = "array_sort (\<lambda>a b. modulePriority a - modulePriority b) (modules self)"
  have "set (pre @ m # post) \<subseteq> set (filter enabled (modules self))"
    using plan [symmetric] by simp
  then have en_m: "enabled m" and en_pre: "filter enabled pre = pre"
    by (auto simp: filter_id_conv)
  have es1: "es1 = map composeCall pre"
    using composeEnabledModules_effects [OF before] en_pre by simp
  have "composeEnabledModules c ?sorted g = composeEnabledModules c (filter enabled ?sorted) g"
    by (simp add: composeEnabledModules_filter)
  also have "filter enabled ?sorted = pre @ m # post"
    using plan by (simp add: array_sort_sort_key filter_sort)
  also have "composeEnabledModules c (pre @ m # post) g = (Some e, g2, es1 @ [composeCall m])"
    using rejected en_m by (simp add: composeEnabledModules_append [OF before])
  finally have res: "applyTo c self g = (Some e, g2, map composeCall pre @ [composeCall m])"
    by (simp add: applyTo_def es1)
  have "list_all isComposeWith (map composeCall (pre @ [m]))"
    by (rule list_all_isComposeWith_composeCall)
  then show ?thesis
    by (simp add: res)
qed

theorem applyTo_compose_failure_aborts_witness:
  "applyTo (\<lambda>m opts g. if m = ''C'' then (Some (Thrown (JStr ''boom'')), g)
                          else (None, assignConfig m (JBool True) g))
     (addDependency \<lparr> groupId = ''com.example'', artifactId = ''lib'', version = None,
                       scope = None, optional = None, exclusions = None \<rparr>
     (overrideProperty ''server.port'' (JNum 8080) None
     (injectModule ''C'' (Some \<lparr> enabled = True, config = None, priority = Some 1, moduleKey = None \<rparr>)
     (injectModule ''B'' (Some \<lparr> enabled = True, config = None, priority = Some 1, moduleKey = None \<rparr>)
     (injectModule ''A'' (Some \<lparr> enabled = True, config = None, priority = Some 2, moduleKey = None \<rparr>)
        createSpringBootInjector)))))
     \<lparr> jhipsterConfig = [] \<rparr> =
   (Some (Thrown (JStr ''boom'')), \<lparr> jhipsterConfig = [(''B'', JBool True)] \<rparr>,
    [ComposeWith ''B'' \<lparr> generatorOptions = None \<rparr>,
     ComposeWith ''C'' \<lparr> generatorOptions = None \<rparr>])"
proof -
  let ?c = "\<lambda>(m::string) (opts::compose_options) (g::generator).
              if m = ''C'' then (Some (Thrown (JStr ''boom'')), g)
              else (None::js_exception option, assignConfig m (JBool True) g)"
  let ?A = "\<lparr> enabled = True, config = None, priority = Some 2, module = ''A'' \<rparr>"
  let ?B = "\<lparr> enabled = True, config = None, priority = Some 1, module = ''B'' \<rparr>"
  let ?C = "\<lparr> enabled = True, config = None, priority = Some 1, module = ''C'' \<rparr>"
  let ?self = "addDependency \<lparr> groupId = ''com.example'', artifactId = ''lib'', version = None,
                       scope = None, optional = None, exclusions = None \<rparr>
     (overrideProperty ''server.port'' (JNum 8080) None
     (injectModule ''C'' (Some \<lparr> enabled = True, config = None, priority = Some 1, moduleKey = None \<rparr>)
     (injectModule ''B'' (Some \<lparr> enabled = True, config = None, priority = Some 1, moduleKey = None \<rparr>)
     (injectModule ''A'' (Some \<lparr> enabled = True, config = None, priority = Some 2, moduleKey = None \<rparr>)
        createSpringBootInjector))))"
  have plan: "sort_key modulePriority (filter enabled (modules ?self)) = [?B] @ ?C # [?A]"
    by (simp add: addDependency_def overrideProperty_def injectModule_def
          createSpringBootInjector_def modulePriority_def)
  have before: "composeEnabledModules ?c [?B] \<lparr> jhipsterConfig = [] \<rparr> =
      (None, \<lparr> jhipsterConfig = [(''B'', JBool True)] \<rparr>, [composeCall ?B])"
    by (simp add: assignConfig_def set_property_def)
  have rejected: "?c (module ?C) \<lparr> generatorOptions = config ?C \<rparr>
      \<lparr> jhipsterConfig = [(''B'', JBool True)] \<rparr> =
      (Some (Thrown (JStr ''boom'')), \<lparr> jhipsterConfig = [(''B'', JBool True)] \<rparr>)"
    by simp
  from applyTo_compose_failure_aborts [OF plan before rejected]
  show ?thesis
    by (simp add: composeCall_def)
qed

lemma applyTo_cong_fields:
  "modules a = modules b \<Longrightarrow> propertyOverrides a = propertyOverrides b \<Longrightarrow>
   dependencies a = dependencies b \<Longrightarrow> applyTo c a g = applyTo c b g"
  by (simp add: applyTo_def split: prod.splits option.splits)

lemma applyTo_drop_disabled:
  assumes "\<not> enabled d"
  shows "applyTo c (self\<lparr> modules := pre @ d # post \<rparr>) g =
         applyTo c (self\<lparr> modules := pre @ post \<rparr>) g"
proof -
  let ?cmp = "\<lambda>a b. modulePriority a - modulePriority b"
  have "filter enabled (array_sort ?cmp (pre @ d # post)) =
        filter enabled (array_sort ?cmp (pre @ post))"
    using assms by (simp add: array_sort_sort_key filter_sort)
  then have "composeEnabledModules c (array_sort ?cmp (pre @ d # post)) g =
        composeEnabledModules c (array_sort ?cmp (pre @ post)) g"
    by (metis composeEnabledModules_filter)
  then show ?thesis
    by (simp add: applyTo_def split: prod.splits option.splits)
qed

lemma mutate_chain_fields:
  "modules (foldl (\<lambda>s mu. mutate mu s) self ms) =
     modules self @ modules (foldl (\<lambda>s mu. mutate mu s) createSpringBootInjector ms)
   \<and> propertyOverrides (foldl (\<lambda>s mu. mutate mu s) self ms) =
     propertyOverrides self @ propertyOverrides (foldl (\<lambda>s mu. mutate mu s) createSpringBootInjector ms)
   \<and> dependencies (foldl (\<lambda>s mu. mutate mu s) self ms) =
     dependencies self @ dependencies (foldl (\<lambda>s mu. mutate mu s) createSpringBootInjector ms)"
proof (induction ms rule: rev_induct)
  case Nil
  then show ?case by (simp add: createSpringBootInjector_def)
next
  case (snoc mu ms)
  then show ?case
    by (cases mu) (simp_all add: injectModule_def overrideProperty_def addDependency_def Let_def)
qed

text \<open>
  Claim C7. A request registered with \<^verbatim>\<open>enabled: false\<close> is in the list \<^verbatim>\<open>getModules()\<close>
  returns, whatever is registered after it, and \<^verbatim>\<open>applyTo\<close> never composes it:
  \<^verbatim>\<open>applyTo\<close> does exactly what it does when the request was never registered, and every
  composition call it makes is the call of an enabled request.
\<close>

theorem disabled_module_listed_but_never_composed:
  assumes "\<not> enabled cfg"
  shows "\<lparr> enabled = False, config = config cfg, priority = priority cfg,
            module = (case moduleKey cfg of None \<Rightarrow> m | Some own \<Rightarrow> own) \<rparr>
           \<in> set (getModules (foldl (\<lambda>s mu. mutate mu s) (injectModule m (Some cfg) self) later))
   \<and> applyTo c (foldl (\<lambda>s mu. mutate mu s) (injectModule m (Some cfg) self) later) g =
     applyTo c (foldl (\<lambda>s mu. mutate mu s) self later) g
   \<and> set (filter isComposeWith
          (snd (snd (applyTo c
             (foldl (\<lambda>s mu. mutate mu s) (injectModule m (Some cfg) self) later) g))))
     \<subseteq> set (map composeCall (filter enabled
          (getModules (foldl (\<lambda>s mu. mutate mu s) (injectModule m (Some cfg) self) later))))"
proof -
  let ?d = "\<lparr> enabled = False, config = config cfg, priority = priority cfg,
              module = (case moduleKey cfg of None \<Rightarrow> m | Some own \<Rightarrow> own) \<rparr>"
  let ?with = "foldl (\<lambda>s mu. mutate mu s) (injectModule m (Some cfg) self) later"
  let ?without = "foldl (\<lambda>s mu. mutate mu s) self later"
  let ?added = "foldl (\<lambda>s mu. mutate mu s) createSpringBootInjector later"
  have reg: "modules (injectModule m (Some cfg) self) = modules self @ [?d]"
    "propertyOverrides (injectModule m (Some cfg) self) = propertyOverrides self"
    "dependencies (injectModule m (Some cfg) self) = dependencies self"
    using assms by (simp_all add: injectModule_def)
  have chain: "modules ?with = modules self @ ?d # modules ?added"
    "propertyOverrides ?with = propertyOverrides ?without"
    "dependencies ?with = dependencies ?without"
    using mutate_chain_fields [of "injectModule m (Some cfg) self" later]
      mutate_chain_fields [of self later]
    by (simp_all add: reg)
  have plain: "modules ?without = modules self @ modules ?added"
    using mutate_chain_fields [of self later] by simp
  have listed: "?d \<in> set (getModules ?with)"
    by (simp add: getModules_def chain)
  have "applyTo c ?with g = applyTo c (?with\<lparr> modules := modules self @ ?d # modules ?added \<rparr>) g"
    by (rule applyTo_cong_fields) (simp_all add: chain)
  also have "\<dots> = applyTo c (?with\<lparr> modules := modules self @ modules ?added \<rparr>) g"
    by (rule applyTo_drop_disabled) simp
  also have "\<dots> = applyTo c ?without g"
    by (rule applyTo_cong_fields) (simp_all add: chain plain)
  finally have same: "applyTo c ?with g = applyTo c ?without g" .
  have "set (filter isComposeWith (snd (snd (applyTo c ?with g))))
          \<subseteq> set (map composeCall (sort_key modulePriority (filter enabled (modules ?with))))"
    using applyTo_compose_calls [of c ?with g] by (blast dest: set_mono_prefix)
  then have only_enabled: "set (filter isComposeWith (snd (snd (applyTo c ?with g))))
          \<subseteq> set (map composeCall (filter enabled (getModules ?with)))"
    by (simp add: getModules_def)
  from listed same only_enabled show ?thesis by blast
qed

theorem disabled_module_listed_but_never_composed_witness:
  "\<not> enabled \<lparr> enabled = False, config = None, priority = None, moduleKey = None \<rparr>
   \<and> getModules (injectModule SPRING_BOOT_MODULES_OAUTH2
         (Some \<lparr> enabled = False, config = None, priority = None, moduleKey = None \<rparr>)
         (injectModule SPRING_BOOT_MODULES_JWT None createSpringBootInjector)) =
       [\<lparr> enabled = True, config = None, priority = None, module = ''jhipster:spring-boot:jwt'' \<rparr>,
        \<lparr> enabled = False, config = None, priority = None, module = ''jhipster:spring-boot:oauth2'' \<rparr>]
   \<and> applyTo (\<lambda>m opts g. (None, g))
         (injectModule SPRING_BOOT_MODULES_OAUTH2
            (Some \<lparr> enabled = False, config = None, priority = None, moduleKey = None \<rparr>)
            (injectModule SPRING_BOOT_MODULES_JWT None createSpringBootInjector))
         \<lparr> jhipsterConfig = [] \<rparr> =
       (None, \<lparr> jhipsterConfig = [] \<rparr>,
        [ComposeWith ''jhipster:spring-boot:jwt'' \<lparr> generatorOptions = None \<rparr>])"
proof -
  let ?cfg = "\<lparr> enabled = False, config = None, priority = None, moduleKey = None \<rparr>"
  let ?jwt = "injectModule SPRING_BOOT_MODULES_JWT None createSpringBootInjector"
  let ?c = "\<lambda>(m::string) (opts::compose_options) (g::generator). (None::js_exception option, g)"
  have off: "\<not> enabled ?cfg" by simp
  from disabled_module_listed_but_never_composed
         [OF off, of SPRING_BOOT_MODULES_OAUTH2 ?jwt "[]" ?c "\<lparr> jhipsterConfig = [] \<rparr>"]
  have "applyTo ?c (injectModule SPRING_BOOT_MODULES_OAUTH2 (Some ?cfg) ?jwt) \<lparr> jhipsterConfig = [] \<rparr>
        = applyTo ?c ?jwt \<lparr> jhipsterConfig = [] \<rparr>"
    by simp
  also have "\<dots> = (None, \<lparr> jhipsterConfig = [] \<rparr>,
        [ComposeWith ''jhipster:spring-boot:jwt'' \<lparr> generatorOptions = None \<rparr>])"
    by (simp add: applyTo_def injectModule_def createSpringBootInjector_def array_sort_def
          defaultModuleOptions_def composeCall_def SPRING_BOOT_MODULES_JWT_def)
  finally have run: "applyTo ?c (injectModule SPRING_BOOT_MODULES_OAUTH2 (Some ?cfg) ?jwt)
        \<lparr> jhipsterConfig = [] \<rparr> = (None, \<lparr> jhipsterConfig = [] \<rparr>,
        [ComposeWith ''jhipster:spring-boot:jwt'' \<lparr> generatorOptions = None \<rparr>])" .
  have listed: "getModules (injectModule SPRING_BOOT_MODULES_OAUTH2 (Some ?cfg) ?jwt) =
       [\<lparr> enabled = True, config = None, priority = None, module = ''jhipster:spring-boot:jwt'' \<rparr>,
        \<lparr> enabled = False, config = None, priority = None, module = ''jhipster:spring-boot:oauth2'' \<rparr>]"
    by (simp add: getModules_def injectModule_def createSpringBootInjector_def
          defaultModuleOptions_def SPRING_BOOT_MODULES_JWT_def SPRING_BOOT_MODULES_OAUTH2_def)
  from off listed run show ?thesis by (simp only: simp_thms)
qed


section \<open>Fields that are never read\<close>

lemma applyPropertyOverride_core:
  "property a = property b \<Longrightarrow> value a = value b \<Longrightarrow> profiles a = profiles b \<Longrightarrow>
     applyPropertyOverride a g = applyPropertyOverride b g"
  by (simp add: applyPropertyOverride_def Let_def split: option.splits prod.splits)

lemma applyPropertyOverrides_core:
  "map (\<lambda>ov. (property ov, value ov, profiles ov)) xs =
   map (\<lambda>ov. (property ov, value ov, profiles ov)) ys \<Longrightarrow>
     applyPropertyOverrides xs (g :: 'a generator_scheme) = applyPropertyOverrides ys g"
proof (induction xs arbitrary: ys g)
  case Nil
  then show ?case by simp
next
  case (Cons x xs)
  then obtain y ys' where ys: "ys = y # ys'"
    by (cases ys) auto
  with Cons.prems have head: "applyPropertyOverride x g = applyPropertyOverride y g"
    by (intro applyPropertyOverride_core) simp_all
  from Cons.prems ys
  have "map (\<lambda>ov. (property ov, value ov, profiles ov)) xs =
        map (\<lambda>ov. (property ov, value ov, profiles ov)) ys'"
    by simp
  then have tail: "\<And>g' :: 'a generator_scheme. applyPropertyOverrides xs g' = applyPropertyOverrides ys' g'"
    by (rule Cons.IH)
  show ?case
    by (simp add: ys head tail)
qed

lemma addDependencyToGenerator_core:
  assumes "groupId a = groupId b" and "artifactId a = artifactId b" and "version a = version b"
  shows "addDependencyToGenerator a g = addDependencyToGenerator b g"
proof -
  have k: "dependencyKey a = dependencyKey b" and v: "dependencyVersion a = dependencyVersion b"
    using assms by (simp_all add: dependencyKey_def dependencyVersion_def)
  show ?thesis
    unfolding addDependencyToGenerator_def k v ..
qed

lemma addDependencies_core:
  "map (\<lambda>d. (groupId d, artifactId d, version d)) xs =
   map (\<lambda>d. (groupId d, artifactId d, version d)) ys \<Longrightarrow>
     addDependencies xs (g :: 'a generator_scheme) = addDependencies ys g"
proof (induction xs arbitrary: ys g)
  case Nil
  then show ?case by simp
next
  case (Cons x xs)
  then obtain y ys' where ys: "ys = y # ys'"
    by (cases ys) auto
  with Cons.prems have head: "addDependencyToGenerator x g = addDependencyToGenerator y g"
    by (intro addDependencyToGenerator_core) simp_all
  from Cons.prems ys
  have "map (\<lambda>d. (groupId d, artifactId d, version d)) xs =
        map (\<lambda>d. (groupId d, artifactId d, version d)) ys'"
    by simp
  then have tail: "\<And>g' :: 'a generator_scheme. addDependencies xs g' = addDependencies ys' g'"
    by (rule Cons.IH)
  show ?case
    by (simp add: ys head tail split: prod.splits option.splits)
qed


text \<open>
  Claim C9. What \<^verbatim>\<open>applyTo\<close> does depends on a property override only through its
  property path, its value and its profiles, and on a dependency only through its
  groupId, artifactId and version: two injectors with the same modules whose overrides
  and dependencies agree on these fields (and may differ in \<^verbatim>\<open>type\<close>, \<^verbatim>\<open>override\<close>,
  \<^verbatim>\<open>scope\<close>, \<^verbatim>\<open>optional\<close> and \<^verbatim>\<open>exclusions\<close>) give the same result on every generator:
  the same outcome, the same final state and the same effects in the same order.
\<close>

theorem applyTo_ignores_advisory_fields:
  assumes "modules a = modules b"
    and "map (\<lambda>ov. (property ov, value ov, profiles ov)) (propertyOverrides a) =
         map (\<lambda>ov. (property ov, value ov, profiles ov)) (propertyOverrides b)"
    and "map (\<lambda>d. (groupId d, artifactId d, version d)) (dependencies a) =
         map (\<lambda>d. (groupId d, artifactId d, version d)) (dependencies b)"
  shows "applyTo c a g = applyTo c b g"
proof -
  have ovs: "applyPropertyOverrides (propertyOverrides a) =
             (applyPropertyOverrides (propertyOverrides b) ::
                'a generator_scheme \<Rightarrow> 'a generator_scheme \<times> effect list)"
    by (rule ext) (rule applyPropertyOverrides_core [OF assms(2)])
  have deps: "addDependencies (dependencies a) =
              (addDependencies (dependencies b) ::
                'a generator_scheme \<Rightarrow> js_exception option \<times> 'a generator_scheme \<times> effect list)"
    by (rule ext) (rule addDependencies_core [OF assms(3)])
  show ?thesis
    unfolding applyTo_def assms(1) ovs deps ..
qed

theorem applyTo_ignores_advisory_fields_witness:
  "applyTo (\<lambda>m opts g. (None, g))
     (addDependency \<lparr> groupId = ''com.example'', artifactId = ''lib'', version = Some ''1.0.0'',
          scope = Some Test, optional = Some True,
          exclusions = Some [\<lparr> groupId = ''org.slf4j'', artifactId = ''slf4j-api'' \<rparr>] \<rparr>
     (overrideProperty ''server.port'' (JNum 8080)
          (Some \<lparr> type = Some TString, override = Some False,
                   profiles = Some [(''dev'', JNum 8081)],
   propertyKey = None, valueKey = None \<rparr>)
        createSpringBootInjector))
     \<lparr> jhipsterConfig = [] \<rparr> =
   applyTo (\<lambda>m opts g. (None, g))
     (addDependency \<lparr> groupId = ''com.example'', artifactId = ''lib'', version = Some ''1.0.0'',
          scope = None, optional = None, exclusions = None \<rparr>
     (overrideProperty ''server.port'' (JNum 8080)
          (Some \<lparr> type = Some TNumber, override = None,
                   profiles = Some [(''dev'', JNum 8081)],
   propertyKey = None, valueKey = None \<rparr>)
        createSpringBootInjector))
     \<lparr> jhipsterConfig = [] \<rparr>"
  by (rule applyTo_ignores_advisory_fields)
     (simp_all add: addDependency_def overrideProperty_def createSpringBootInjector_def)

section \<open>Properties of the property writes\<close>

lemma map_of_set_property:
  "map_of (set_property k v obj) = (map_of obj)(k \<mapsto> v)"
  by (simp add: set_property_def update_conv')

lemma applyProfiles_eq:
  "applyProfiles p ps g =
     (foldl (\<lambda>g kv. assignConfig (p @ ''@'' @ fst kv) (snd kv) g) g ps,
      map (\<lambda>kv. SetConfig (p @ ''@'' @ fst kv) (snd kv)) ps)"
  by (induction ps arbitrary: g) (auto split: prod.splits)

lemma jhipsterConfig_assignConfig:
  "jhipsterConfig (assignConfig k v g) = set_property k v (jhipsterConfig g)"
  by (simp add: assignConfig_def)


lemma set_Object_entries: "set (Object_entries ps) = set ps"
  by (auto simp: Object_entries_def)


lemma Object_entries_no_index:
  "list_all (\<lambda>kv. \<not> is_array_index (fst kv)) ps \<Longrightarrow> Object_entries ps = ps"
  by (simp add: Object_entries_def list_all_iff filter_empty_conv filter_id_conv)

lemma applyPropertyOverride_eq:
  "applyPropertyOverride ov g =
     (foldl (\<lambda>g kv. assignConfig (property ov @ ''@'' @ fst kv) (snd kv) g)
        (assignConfig (property ov) (value ov) g)
        (case profiles ov of None \<Rightarrow> [] | Some ps \<Rightarrow> Object_entries ps),
      SetConfig (property ov) (value ov) #
      map (\<lambda>kv. SetConfig (property ov @ ''@'' @ fst kv) (snd kv))
        (case profiles ov of None \<Rightarrow> [] | Some ps \<Rightarrow> Object_entries ps))"
  by (simp add: applyPropertyOverride_def applyProfiles_eq Let_def split: option.splits)

lemma applyPropertyOverrides_effects:
  "snd (applyPropertyOverrides ovs g) =
     concat (map (\<lambda>ov. SetConfig (property ov) (value ov) #
        map (\<lambda>kv. SetConfig (property ov @ ''@'' @ fst kv) (snd kv))
          (case profiles ov of None \<Rightarrow> [] | Some ps \<Rightarrow> Object_entries ps)) ovs)"
  by (induction ovs arbitrary: g) (simp_all add: applyPropertyOverride_eq case_prod_beta)

lemma applyPropertyOverrides_append:
  "applyPropertyOverrides (xs @ ys) g =
     (case applyPropertyOverrides xs g of
        (g1, es1) \<Rightarrow> (case applyPropertyOverrides ys g1 of (g2, es2) \<Rightarrow> (g2, es1 @ es2)))"
  by (induction xs arbitrary: g) (simp_all split: prod.splits)

lemma profile_key_neq_path: "p @ ''@'' @ r \<noteq> p"
proof
  assume "p @ ''@'' @ r = p"
  then have "length (p @ ''@'' @ r) = length p" by simp
  then show False by simp
qed

lemma foldl_assignConfig_other:
  "list_all (\<lambda>kv. f kv \<noteq> k) ps \<Longrightarrow>
     map_of (jhipsterConfig (foldl (\<lambda>g kv. assignConfig (f kv) (snd kv) g) g ps)) k =
     map_of (jhipsterConfig g) k"
  by (induction ps arbitrary: g) (auto simp: jhipsterConfig_assignConfig map_of_set_property)

lemma applyPropertyOverride_sets_path:
  "map_of (jhipsterConfig (fst (applyPropertyOverride ov g))) (property ov) = Some (value ov)"
proof -
  let ?ps = "case profiles ov of None \<Rightarrow> [] | Some ps \<Rightarrow> Object_entries ps"
  have "list_all (\<lambda>kv. property ov @ ''@'' @ fst kv \<noteq> property ov) ?ps"
    unfolding list_all_iff using profile_key_neq_path by blast
  from foldl_assignConfig_other
         [where f = "\<lambda>kv. property ov @ ''@'' @ fst kv", OF this,
          of "assignConfig (property ov) (value ov) g"]
  show ?thesis
    by (simp add: applyPropertyOverride_eq jhipsterConfig_assignConfig map_of_set_property)
qed

lemma applyPropertyOverride_other:
  assumes "property ov \<noteq> k"
    and "case profiles ov of None \<Rightarrow> True
         | Some ps \<Rightarrow> list_all (\<lambda>kv. property ov @ ''@'' @ fst kv \<noteq> k) ps"
  shows "map_of (jhipsterConfig (fst (applyPropertyOverride ov g))) k = map_of (jhipsterConfig g) k"
proof -
  let ?ps = "case profiles ov of None \<Rightarrow> [] | Some ps \<Rightarrow> Object_entries ps"
  have "list_all (\<lambda>kv. property ov @ ''@'' @ fst kv \<noteq> k) ?ps"
    using assms(2) by (auto simp: list_all_iff set_Object_entries split: option.splits)
  from foldl_assignConfig_other
         [where f = "\<lambda>kv. property ov @ ''@'' @ fst kv", OF this,
          of "assignConfig (property ov) (value ov) g"]
  show ?thesis
    using assms(1)
    by (simp add: applyPropertyOverride_eq jhipsterConfig_assignConfig map_of_set_property)
qed

lemma applyPropertyOverrides_other:
  "list_all (\<lambda>ov. property ov \<noteq> k \<and>
       (case profiles ov of None \<Rightarrow> True
        | Some ps \<Rightarrow> list_all (\<lambda>kv. property ov @ ''@'' @ fst kv \<noteq> k) ps)) ovs \<Longrightarrow>
     map_of (jhipsterConfig (fst (applyPropertyOverrides ovs g))) k = map_of (jhipsterConfig g) k"
proof (induction ovs arbitrary: g)
  case Nil
  then show ?case by simp
next
  case (Cons ov ovs)
  obtain g1 es1 where step: "applyPropertyOverride ov g = (g1, es1)"
    by (cases "applyPropertyOverride ov g") auto
  have "map_of (jhipsterConfig g1) k = map_of (jhipsterConfig g) k"
    using applyPropertyOverride_other [of ov k g] Cons.prems step by simp
  moreover have "map_of (jhipsterConfig (fst (applyPropertyOverrides ovs g1))) k =
                 map_of (jhipsterConfig g1) k"
    using Cons.prems by (intro Cons.IH) simp
  ultimately show ?case
    by (simp add: step case_prod_beta)
qed


section \<open>Properties of the dependency writes\<close>

lemma applyTo_completes:
  assumes "fst (applyTo c self g) = None"
  obtains g1 es1 g2 es2 g3 es3 where
    "composeEnabledModules c
       (array_sort (\<lambda>a b. modulePriority a - modulePriority b) (modules self)) g = (None, g1, es1)"
    and "applyPropertyOverrides (propertyOverrides self) g1 = (g2, es2)"
    and "addDependencies (dependencies self) g2 = (None, g3, es3)"
    and "applyTo c self g = (None, g3, es1 @ es2 @ es3)"
proof -
  let ?sorted = "array_sort (\<lambda>a b. modulePriority a - modulePriority b) (modules self)"
  obtain r g1 es1 where loop: "composeEnabledModules c ?sorted g = (r, g1, es1)"
    by (cases "composeEnabledModules c ?sorted g") auto
  obtain g2 es2 where ovs: "applyPropertyOverrides (propertyOverrides self) g1 = (g2, es2)"
    by (cases "applyPropertyOverrides (propertyOverrides self) g1") auto
  obtain r3 g3 es3 where deps: "addDependencies (dependencies self) g2 = (r3, g3, es3)"
    by (cases "addDependencies (dependencies self) g2") auto
  have r: "r = None"
    using assms by (cases r) (simp_all add: applyTo_def loop)
  then have res: "applyTo c self g = (r3, g3, es1 @ es2 @ es3)"
    by (simp add: applyTo_def loop ovs deps)
  with assms have "r3 = None" by simp
  with loop ovs deps res r that show thesis by blast
qed

lemma addDependencyToGenerator_falsy:
  assumes "\<not> truthy (get_property (jhipsterConfig g) ''springBootDependencies'')"
  shows "addDependencyToGenerator dep g =
     (None,
      assignConfig ''springBootDependencies''
        (JObj [(dependencyKey dep, dependencyVersion dep)]) g,
      [SetConfig ''springBootDependencies'' (JObj []),
       SetDependency (dependencyKey dep) (dependencyVersion dep)])"
proof -
  let ?g1 = "assignConfig ''springBootDependencies'' (JObj []) g"
  have slot: "get_property (jhipsterConfig ?g1) ''springBootDependencies'' = JObj []"
    by (simp add: get_property_def jhipsterConfig_assignConfig map_of_set_property)
  have "addDependencyToGenerator dep g =
     (None,
      assignConfig ''springBootDependencies''
        (JObj (set_property (dependencyKey dep) (dependencyVersion dep) [])) ?g1,
      [SetConfig ''springBootDependencies'' (JObj []),
       SetDependency (dependencyKey dep) (dependencyVersion dep)])"
    using assms by (simp add: addDependencyToGenerator_def slot)
  moreover have "assignConfig ''springBootDependencies'' x ?g1 =
                 assignConfig ''springBootDependencies'' x g" for x
    by (simp add: assignConfig_def set_property_def)
  moreover have "set_property (dependencyKey dep) (dependencyVersion dep) [] =
                 [(dependencyKey dep, dependencyVersion dep)]"
    by (simp add: set_property_def)
  ultimately show ?thesis by simp
qed

lemma addDependencyToGenerator_object:
  assumes "get_property (jhipsterConfig g) ''springBootDependencies'' = JObj deps"
  shows "addDependencyToGenerator dep g =
     (None,
      assignConfig ''springBootDependencies''
        (JObj (set_property (dependencyKey dep) (dependencyVersion dep) deps)) g,
      [SetDependency (dependencyKey dep) (dependencyVersion dep)])"
  using assms by (simp add: addDependencyToGenerator_def)

lemma addDependencyToGenerator_cases:
  assumes "addDependencyToGenerator dep g = (None, g', es)"
  obtains
    (absent) "\<not> truthy (get_property (jhipsterConfig g) ''springBootDependencies'')"
  | (object) deps where "get_property (jhipsterConfig g) ''springBootDependencies'' = JObj deps"
proof (cases "truthy (get_property (jhipsterConfig g) ''springBootDependencies'')")
  case False
  then show thesis by (rule absent)
next
  case True
  with assms obtain deps where
    "get_property (jhipsterConfig g) ''springBootDependencies'' = JObj deps"
    by (cases "get_property (jhipsterConfig g) ''springBootDependencies''")
       (simp_all add: addDependencyToGenerator_def)
  then show thesis by (rule object)
qed

lemma addDependencyToGenerator_written:
  assumes "addDependencyToGenerator dep g = (None, g', es)"
  shows "filter isSetDependency es = [SetDependency (dependencyKey dep) (dependencyVersion dep)]"
    and "\<exists>m. map_of (jhipsterConfig g') ''springBootDependencies'' = Some (JObj m)
           \<and> map_of m (dependencyKey dep) = Some (dependencyVersion dep)"
proof -
  show "filter isSetDependency es = [SetDependency (dependencyKey dep) (dependencyVersion dep)]"
    using assms
    by (cases rule: addDependencyToGenerator_cases [OF assms])
       (auto simp: addDependencyToGenerator_falsy addDependencyToGenerator_object)
  show "\<exists>m. map_of (jhipsterConfig g') ''springBootDependencies'' = Some (JObj m)
           \<and> map_of m (dependencyKey dep) = Some (dependencyVersion dep)"
    using assms
    by (cases rule: addDependencyToGenerator_cases [OF assms])
       (auto simp: addDependencyToGenerator_falsy addDependencyToGenerator_object
          jhipsterConfig_assignConfig map_of_set_property)
qed

lemma addDependencyToGenerator_keeps:
  assumes "addDependencyToGenerator dep g = (None, g', es)"
    and "map_of (jhipsterConfig g) ''springBootDependencies'' = Some (JObj m)"
    and "map_of m k = Some v"
    and "dependencyKey dep \<noteq> k"
  shows "\<exists>m'. map_of (jhipsterConfig g') ''springBootDependencies'' = Some (JObj m')
           \<and> map_of m' k = Some v"
proof -
  have slot: "get_property (jhipsterConfig g) ''springBootDependencies'' = JObj m"
    using assms(2) by (simp add: get_property_def)
  from assms(1) have "g' = assignConfig ''springBootDependencies''
        (JObj (set_property (dependencyKey dep) (dependencyVersion dep) m)) g"
    by (simp add: addDependencyToGenerator_object [OF slot])
  then show ?thesis
    using assms(3,4) by (simp add: jhipsterConfig_assignConfig map_of_set_property)
qed

lemma addDependencyToGenerator_other:
  assumes "k \<noteq> ''springBootDependencies''"
  shows "map_of (jhipsterConfig (fst (snd (addDependencyToGenerator dep g)))) k =
         map_of (jhipsterConfig g) k"
  using assms
  by (simp add: addDependencyToGenerator_def Let_def jhipsterConfig_assignConfig
        map_of_set_property split: jsval.splits)

lemma addDependencies_other:
  assumes "k \<noteq> ''springBootDependencies''"
  shows "map_of (jhipsterConfig (fst (snd (addDependencies ds g)))) k = map_of (jhipsterConfig g) k"
proof (induction ds arbitrary: g)
  case Nil
  then show ?case by simp
next
  case (Cons d ds)
  obtain r g1 es1 where step: "addDependencyToGenerator d g = (r, g1, es1)"
    by (cases "addDependencyToGenerator d g") auto
  have g1: "map_of (jhipsterConfig g1) k = map_of (jhipsterConfig g) k"
    using addDependencyToGenerator_other [OF assms, of d g] by (simp add: step)
  show ?case
    using Cons.IH [of g1] g1 by (cases r) (simp_all add: step case_prod_beta)
qed

lemma addDependencies_written:
  "addDependencies ds g = (None, g', es) \<Longrightarrow>
     filter isSetDependency es =
     map (\<lambda>d. SetDependency (dependencyKey d) (dependencyVersion d)) ds"
proof (induction ds arbitrary: g g' es)
  case Nil
  then show ?case by simp
next
  case (Cons d ds)
  obtain r g1 es1 where step: "addDependencyToGenerator d g = (r, g1, es1)"
    by (cases "addDependencyToGenerator d g") auto
  obtain r2 g2 es2 where rest: "addDependencies ds g1 = (r2, g2, es2)"
    by (cases "addDependencies ds g1") auto
  from Cons.prems have r: "r = None"
    by (cases r) (simp_all add: step)
  with Cons.prems have "r2 = None" and es: "es = es1 @ es2"
    by (simp_all add: step rest)
  then have "filter isSetDependency es2 =
     map (\<lambda>d. SetDependency (dependencyKey d) (dependencyVersion d)) ds"
    using rest by (intro Cons.IH) simp
  moreover have "filter isSetDependency es1 =
     [SetDependency (dependencyKey d) (dependencyVersion d)]"
    using step r by (intro addDependencyToGenerator_written) simp
  ultimately show ?case
    by (simp add: es)
qed

lemma addDependencies_keeps:
  "addDependencies ds g = (None, g', es) \<Longrightarrow>
   map_of (jhipsterConfig g) ''springBootDependencies'' = Some (JObj m) \<Longrightarrow>
   map_of m k = Some v \<Longrightarrow>
   list_all (\<lambda>d. dependencyKey d \<noteq> k) ds \<Longrightarrow>
     \<exists>m'. map_of (jhipsterConfig g') ''springBootDependencies'' = Some (JObj m')
          \<and> map_of m' k = Some v"
proof (induction ds arbitrary: g g' es m)
  case Nil
  then show ?case by auto
next
  case (Cons d ds)
  obtain r g1 es1 where step: "addDependencyToGenerator d g = (r, g1, es1)"
    by (cases "addDependencyToGenerator d g") auto
  obtain r2 g2 es2 where rest: "addDependencies ds g1 = (r2, g2, es2)"
    by (cases "addDependencies ds g1") auto
  from Cons.prems(1) have r: "r = None"
    by (cases r) (simp_all add: step)
  with Cons.prems(1) have r2: "r2 = None" and g': "g' = g2"
    by (simp_all add: step rest)
  from Cons.prems(4) have d: "dependencyKey d \<noteq> k" and ds: "list_all (\<lambda>d. dependencyKey d \<noteq> k) ds"
    by simp_all
  from step r have "addDependencyToGenerator d g = (None, g1, es1)" by simp
  from addDependencyToGenerator_keeps [OF this Cons.prems(2) Cons.prems(3) d]
  obtain m1 where m1: "map_of (jhipsterConfig g1) ''springBootDependencies'' = Some (JObj m1)"
    "map_of m1 k = Some v"
    by blast
  from rest r2 have "addDependencies ds g1 = (None, g2, es2)" by simp
  from Cons.IH [OF this m1 ds] show ?case
    by (simp add: g')
qed

lemma addDependencies_last_wins:
  assumes "addDependencies (ds1 @ d # ds2) g = (None, g', es)"
    and "list_all (\<lambda>d'. dependencyKey d' \<noteq> dependencyKey d) ds2"
  shows "\<exists>m. map_of (jhipsterConfig g') ''springBootDependencies'' = Some (JObj m)
          \<and> map_of m (dependencyKey d) = Some (dependencyVersion d)"
  using assms
proof (induction ds1 arbitrary: g es)
  case Nil
  obtain r g1 es1 where step: "addDependencyToGenerator d g = (r, g1, es1)"
    by (cases "addDependencyToGenerator d g") auto
  obtain r2 g2 es2 where rest: "addDependencies ds2 g1 = (r2, g2, es2)"
    by (cases "addDependencies ds2 g1") auto
  from Nil.prems(1) have r: "r = None"
    by (cases r) (simp_all add: step)
  with Nil.prems(1) have r2: "r2 = None" and g': "g' = g2"
    by (simp_all add: step rest)
  from step r have "addDependencyToGenerator d g = (None, g1, es1)" by simp
  from addDependencyToGenerator_written(2) [OF this]
  obtain m1 where m1: "map_of (jhipsterConfig g1) ''springBootDependencies'' = Some (JObj m1)"
    "map_of m1 (dependencyKey d) = Some (dependencyVersion d)"
    by blast
  from rest r2 have "addDependencies ds2 g1 = (None, g2, es2)" by simp
  from addDependencies_keeps [OF this m1 Nil.prems(2)] show ?case
    by (simp add: g')
next
  case (Cons x ds1)
  obtain r g1 es1 where step: "addDependencyToGenerator x g = (r, g1, es1)"
    by (cases "addDependencyToGenerator x g") auto
  obtain r2 g2 es2 where rest: "addDependencies (ds1 @ d # ds2) g1 = (r2, g2, es2)"
    by (cases "addDependencies (ds1 @ d # ds2) g1") auto
  from Cons.prems(1) have r: "r = None"
    by (cases r) (simp_all add: step)
  with Cons.prems(1) have "r2 = None" and "g' = g2"
    by (simp_all add: step rest)
  with rest have "addDependencies (ds1 @ d # ds2) g1 = (None, g', es2)" by simp
  from Cons.IH [OF this Cons.prems(2)] show ?case .
qed

lemma composeEnabledModules_no_dependency:
  "composeEnabledModules c ms g = (r, g', es) \<Longrightarrow> filter isSetDependency es = []"
  by (induction ms arbitrary: g r g' es)
     (auto simp: composeCall_def split: prod.splits option.splits if_splits)

lemma applyPropertyOverrides_no_dependency:
  "filter isSetDependency (snd (applyPropertyOverrides ovs g)) = []"
  by (simp add: applyPropertyOverrides_effects filter_concat filter_empty_conv)


section \<open>Property overrides\<close>

lemma applyTo_effects_completed:
  assumes "fst (applyTo c self g) = None"
  shows "\<exists>g2 :: 'a generator_scheme. snd (snd (applyTo c self (g :: 'a generator_scheme))) =
     map composeCall (sort_key modulePriority (filter enabled (modules self)))
     @ concat (map (\<lambda>ov. snd (applyPropertyOverride ov g)) (propertyOverrides self))
     @ snd (snd (addDependencies (dependencies self) g2))"
proof -
  from assms obtain g1 es1 g2 es2 g3 es3 where
    loop: "composeEnabledModules c
       (array_sort (\<lambda>a b. modulePriority a - modulePriority b) (modules self)) g = (None, g1, es1)"
    and ovs: "applyPropertyOverrides (propertyOverrides self) g1 = (g2, es2)"
    and deps: "addDependencies (dependencies self) g2 = (None, g3, es3)"
    and res: "applyTo c self g = (None, g3, es1 @ es2 @ es3)"
    by (rule applyTo_completes)
  have "es1 = map composeCall (sort_key modulePriority (filter enabled (modules self)))"
    using composeEnabledModules_effects [OF loop] by (simp add: array_sort_sort_key filter_sort)
  moreover have "es2 = concat (map (\<lambda>ov. snd (applyPropertyOverride ov g)) (propertyOverrides self))"
    using applyPropertyOverrides_effects [of "propertyOverrides self" g1]
    by (simp add: ovs applyPropertyOverride_eq)
  moreover have "es3 = snd (snd (addDependencies (dependencies self) g2))"
    by (simp add: deps)
  ultimately show ?thesis
    using res by auto
qed







text \<open>
  Claim C10, amended. \<^verbatim>\<open>applyTo\<close> applies the property overrides in registration order:
  when it completes, its effects are the composition calls, then the writes of the
  overrides in the order of their registration, then the effects of the dependencies.
  The property map then holds, under the path of an override, the value of that
  override, provided that nothing applied after it writes to that path: no override
  registered after it has the same path, none has a profile whose key path \<^verbatim>\<open>@\<close> profile
  is that path, and the path is not \<^verbatim>\<open>springBootDependencies\<close> when a dependency is
  registered. So of the overrides that share a path the one registered last wins, unless
  a later write of another kind goes to the same key.
\<close>

theorem later_override_wins:
  assumes overrides: "propertyOverrides self = earlier @ ov # later"
    and later: "list_all (\<lambda>ov'. property ov' \<noteq> property ov \<and>
          (case profiles ov' of None \<Rightarrow> True
           | Some ps \<Rightarrow> list_all (\<lambda>kv. property ov' @ ''@'' @ fst kv \<noteq> property ov) ps))
        later"
    and slot: "property ov \<noteq> ''springBootDependencies'' \<or> dependencies self = []"
    and completes: "fst (applyTo c self g) = None"
  shows "map_of (jhipsterConfig (fst (snd (applyTo c self g)))) (property ov) = Some (value ov)
     \<and> (\<exists>g2 :: 'a generator_scheme. snd (snd (applyTo c self (g :: 'a generator_scheme))) =
           map composeCall (sort_key modulePriority (filter enabled (modules self)))
           @ concat (map (\<lambda>ov. snd (applyPropertyOverride ov g)) (propertyOverrides self))
           @ snd (snd (addDependencies (dependencies self) g2)))"
proof -
  from completes obtain g1 es1 g2 es2 g3 es3 where
    ovs: "applyPropertyOverrides (propertyOverrides self) g1 = (g2, es2)"
    and deps: "addDependencies (dependencies self) g2 = (None, g3, es3)"
    and res: "applyTo c self g = (None, g3, es1 @ es2 @ es3)"
    by (rule applyTo_completes)
  obtain ga ea where before: "applyPropertyOverrides earlier g1 = (ga, ea)"
    by (cases "applyPropertyOverrides earlier g1") auto
  obtain gb eb where own: "applyPropertyOverride ov ga = (gb, eb)"
    by (cases "applyPropertyOverride ov ga") auto
  obtain gc ec where rest: "applyPropertyOverrides later gb = (gc, ec)"
    by (cases "applyPropertyOverrides later gb") auto
  have g2: "g2 = gc"
    using ovs by (simp add: overrides applyPropertyOverrides_append before own rest)
  have "map_of (jhipsterConfig gb) (property ov) = Some (value ov)"
    using applyPropertyOverride_sets_path [of ov ga] by (simp add: own)
  moreover have "map_of (jhipsterConfig gc) (property ov) = map_of (jhipsterConfig gb) (property ov)"
    using applyPropertyOverrides_other [OF later, of gb] by (simp add: rest)
  ultimately have written: "map_of (jhipsterConfig g2) (property ov) = Some (value ov)"
    by (simp add: g2)
  have "map_of (jhipsterConfig g3) (property ov) = map_of (jhipsterConfig g2) (property ov)"
  proof (cases "dependencies self = []")
    case True
    with deps show ?thesis by simp
  next
    case False
    with slot have "property ov \<noteq> ''springBootDependencies''" by simp
    from addDependencies_other [OF this, of "dependencies self" g2] show ?thesis
      by (simp add: deps)
  qed
  with written have "map_of (jhipsterConfig (fst (snd (applyTo c self g)))) (property ov) =
      Some (value ov)"
    by (simp add: res)
  with applyTo_effects_completed [OF completes] show ?thesis
    by blast
qed


theorem later_override_wins_witness:
  "fst (applyTo (\<lambda>m opts g. (None, g))
     (addDependency \<lparr> groupId = ''com.example'', artifactId = ''lib'', version = None,
                       scope = None, optional = None, exclusions = None \<rparr>
     (overrideProperty ''spring.cache.type'' (JStr ''redis'') None
     (overrideProperty ''server.port'' (JNum 9090)
        (Some \<lparr> type = None, override = None, profiles = Some [(''dev'', JNum 9091)],
   propertyKey = None, valueKey = None \<rparr>)
     (overrideProperty ''server.port'' (JNum 8080) None createSpringBootInjector))))
     \<lparr> jhipsterConfig = [] \<rparr>) = None
   \<and> map_of (jhipsterConfig (fst (snd (applyTo (\<lambda>m opts g. (None, g))
     (addDependency \<lparr> groupId = ''com.example'', artifactId = ''lib'', version = None,
                       scope = None, optional = None, exclusions = None \<rparr>
     (overrideProperty ''spring.cache.type'' (JStr ''redis'') None
     (overrideProperty ''server.port'' (JNum 9090)
        (Some \<lparr> type = None, override = None, profiles = Some [(''dev'', JNum 9091)],
   propertyKey = None, valueKey = None \<rparr>)
     (overrideProperty ''server.port'' (JNum 8080) None createSpringBootInjector))))
     \<lparr> jhipsterConfig = [] \<rparr>)))) ''server.port'' = Some (JNum 9090)"
proof -
  let ?c = "\<lambda>(m::string) (opts::compose_options) (g::generator). (None::js_exception option, g)"
  let ?first = "\<lparr> type = None, override = None, profiles = None,
                  property = ''server.port'', value = JNum 8080 \<rparr>"
  let ?second = "\<lparr> type = None, override = None, profiles = Some [(''dev'', JNum 9091)],
                   property = ''server.port'', value = JNum 9090 \<rparr>"
  let ?third = "\<lparr> type = None, override = None, profiles = None,
                  property = ''spring.cache.type'', value = JStr ''redis'' \<rparr>"
  let ?self = "addDependency \<lparr> groupId = ''com.example'', artifactId = ''lib'', version = None,
                       scope = None, optional = None, exclusions = None \<rparr>
     (overrideProperty ''spring.cache.type'' (JStr ''redis'') None
     (overrideProperty ''server.port'' (JNum 9090)
        (Some \<lparr> type = None, override = None, profiles = Some [(''dev'', JNum 9091)],
   propertyKey = None, valueKey = None \<rparr>)
     (overrideProperty ''server.port'' (JNum 8080) None createSpringBootInjector)))"
  let ?g = "\<lparr> jhipsterConfig = [] \<rparr>"
  have overrides: "propertyOverrides ?self = [?first] @ ?second # [?third]"
    by (simp add: addDependency_def overrideProperty_def createSpringBootInjector_def
          defaultOverrideOptions_def)
  have later: "list_all (\<lambda>ov'. property ov' \<noteq> property ?second \<and>
          (case profiles ov' of None \<Rightarrow> True
           | Some ps \<Rightarrow> list_all (\<lambda>kv. property ov' @ ''@'' @ fst kv \<noteq> property ?second) ps))
        [?third]"
    by simp
  have slot: "property ?second \<noteq> ''springBootDependencies''
              \<or> dependencies ?self = []"
    by simp
  have entries: "Object_entries [(''dev'', JNum 9091)] = [(''dev'', JNum 9091)]"
    by (rule Object_entries_no_index) (simp add: is_array_index_def is_digit_def)
  have completes: "fst (applyTo ?c ?self ?g) = None"
    by (simp add: applyTo_def addDependency_def overrideProperty_def
          createSpringBootInjector_def defaultOverrideOptions_def array_sort_def
          applyPropertyOverride_def entries assignConfig_def set_property_def
          addDependencyToGenerator_def get_property_def)
  have "map_of (jhipsterConfig (fst (snd (applyTo ?c ?self ?g)))) (property ?second) =
        Some (value ?second)"
    using later_override_wins [OF overrides later slot completes] by (rule conjunct1)
  then have "map_of (jhipsterConfig (fst (snd (applyTo ?c ?self ?g)))) ''server.port'' =
        Some (JNum 9090)"
    by simp
  with completes show ?thesis
    by (rule conjI)
qed


text \<open>
  Claim C10 as it was stated fails in two ways. Two overrides of
  \<^verbatim>\<open>logging.level.root@dev\<close> (\<^verbatim>\<open>INFO\<close>, then \<^verbatim>\<open>WARN\<close>) followed by an override of
  \<^verbatim>\<open>logging.level.root\<close> with the profile \<^verbatim>\<open>dev: 'DEBUG'\<close> leave \<^verbatim>\<open>DEBUG\<close> under
  \<^verbatim>\<open>logging.level.root@dev\<close>, not \<^verbatim>\<open>WARN\<close>. Two overrides of \<^verbatim>\<open>springBootDependencies\<close>
  (the later one \<^verbatim>\<open>null\<close>) followed by a dependency leave the dependency map under
  \<^verbatim>\<open>springBootDependencies\<close>, not \<^verbatim>\<open>null\<close>. \<^verbatim>\<open>applyTo\<close> completes in both.
\<close>

theorem later_override_wins_counterexample:
  "fst (applyTo (\<lambda>m opts g. (None, g))
     (overrideProperty ''logging.level.root'' (JStr ''ERROR'')
        (Some \<lparr> type = None, override = None, profiles = Some [(''dev'', JStr ''DEBUG'')],
   propertyKey = None, valueKey = None \<rparr>)
     (overrideProperty ''logging.level.root@dev'' (JStr ''WARN'') None
     (overrideProperty ''logging.level.root@dev'' (JStr ''INFO'') None
        createSpringBootInjector)))
     \<lparr> jhipsterConfig = [] \<rparr>) = None
   \<and> map_of (jhipsterConfig (fst (snd (applyTo (\<lambda>m opts g. (None, g))
     (overrideProperty ''logging.level.root'' (JStr ''ERROR'')
        (Some \<lparr> type = None, override = None, profiles = Some [(''dev'', JStr ''DEBUG'')],
   propertyKey = None, valueKey = None \<rparr>)
     (overrideProperty ''logging.level.root@dev'' (JStr ''WARN'') None
     (overrideProperty ''logging.level.root@dev'' (JStr ''INFO'') None
        createSpringBootInjector)))
     \<lparr> jhipsterConfig = [] \<rparr>)))) ''logging.level.root@dev'' = Some (JStr ''DEBUG'')
   \<and> fst (applyTo (\<lambda>m opts g. (None, g))
     (addDependency \<lparr> groupId = ''com.example'', artifactId = ''lib'', version = Some ''1.0.0'',
                       scope = None, optional = None, exclusions = None \<rparr>
     (overrideProperty ''springBootDependencies'' JNull None
     (overrideProperty ''springBootDependencies'' (JStr ''none'') None
        createSpringBootInjector)))
     \<lparr> jhipsterConfig = [] \<rparr>) = None
   \<and> map_of (jhipsterConfig (fst (snd (applyTo (\<lambda>m opts g. (None, g))
     (addDependency \<lparr> groupId = ''com.example'', artifactId = ''lib'', version = Some ''1.0.0'',
                       scope = None, optional = None, exclusions = None \<rparr>
     (overrideProperty ''springBootDependencies'' JNull None
     (overrideProperty ''springBootDependencies'' (JStr ''none'') None
        createSpringBootInjector)))
     \<lparr> jhipsterConfig = [] \<rparr>)))) ''springBootDependencies'' =
       Some (JObj [(''com.example:lib'', JStr ''1.0.0'')])"
proof -
  have entries: "Object_entries [(''dev'', JStr ''DEBUG'')] = [(''dev'', JStr ''DEBUG'')]"
    by (rule Object_entries_no_index) (simp add: is_array_index_def is_digit_def)
  have first: "applyTo (\<lambda>m opts g. (None, g))
     (overrideProperty ''logging.level.root'' (JStr ''ERROR'')
        (Some \<lparr> type = None, override = None, profiles = Some [(''dev'', JStr ''DEBUG'')],
   propertyKey = None, valueKey = None \<rparr>)
     (overrideProperty ''logging.level.root@dev'' (JStr ''WARN'') None
     (overrideProperty ''logging.level.root@dev'' (JStr ''INFO'') None
        createSpringBootInjector)))
     \<lparr> jhipsterConfig = [] \<rparr> =
     (None,
      \<lparr> jhipsterConfig = [(''logging.level.root@dev'', JStr ''DEBUG''),
                           (''logging.level.root'', JStr ''ERROR'')] \<rparr>,
      [SetConfig ''logging.level.root@dev'' (JStr ''INFO''),
       SetConfig ''logging.level.root@dev'' (JStr ''WARN''),
       SetConfig ''logging.level.root'' (JStr ''ERROR''),
       SetConfig ''logging.level.root@dev'' (JStr ''DEBUG'')])"
    by (simp add: applyTo_def overrideProperty_def createSpringBootInjector_def
          defaultOverrideOptions_def array_sort_def applyPropertyOverride_def entries
          assignConfig_def set_property_def)
  have second: "applyTo (\<lambda>m opts g. (None, g))
     (addDependency \<lparr> groupId = ''com.example'', artifactId = ''lib'', version = Some ''1.0.0'',
                       scope = None, optional = None, exclusions = None \<rparr>
     (overrideProperty ''springBootDependencies'' JNull None
     (overrideProperty ''springBootDependencies'' (JStr ''none'') None
        createSpringBootInjector)))
     \<lparr> jhipsterConfig = [] \<rparr> =
     (None,
      \<lparr> jhipsterConfig =
          [(''springBootDependencies'', JObj [(''com.example:lib'', JStr ''1.0.0'')])] \<rparr>,
      [SetConfig ''springBootDependencies'' (JStr ''none''),
       SetConfig ''springBootDependencies'' JNull,
       SetConfig ''springBootDependencies'' (JObj []),
       SetDependency ''com.example:lib'' (JStr ''1.0.0'')])"
    by (simp add: applyTo_def addDependency_def overrideProperty_def
          createSpringBootInjector_def defaultOverrideOptions_def array_sort_def
          applyPropertyOverride_def assignConfig_def set_property_def
          addDependencyToGenerator_def get_property_def dependencyKey_def
          dependencyVersion_def)
  show ?thesis
    by (simp add: first second)
qed




section \<open>Dependencies\<close>

lemma addDependencyToGenerator_total:
  "addDependencyToGenerator dep g =
     (case get_property (jhipsterConfig g) ''springBootDependencies'' of
        JObj deps \<Rightarrow>
          (None,
           assignConfig ''springBootDependencies''
             (JObj (set_property (dependencyKey dep) (dependencyVersion dep) deps)) g,
           [SetDependency (dependencyKey dep) (dependencyVersion dep)])
      | v \<Rightarrow>
          if truthy v then (Some TypeError, g, [])
          else (None,
                assignConfig ''springBootDependencies''
                  (JObj [(dependencyKey dep, dependencyVersion dep)]) g,
                [SetConfig ''springBootDependencies'' (JObj []),
                 SetDependency (dependencyKey dep) (dependencyVersion dep)]))"
proof (cases "truthy (get_property (jhipsterConfig g) ''springBootDependencies'')")
  case False
  then show ?thesis
    by (cases "get_property (jhipsterConfig g) ''springBootDependencies''")
       (simp_all add: addDependencyToGenerator_falsy)
next
  case True
  then show ?thesis
    by (cases "get_property (jhipsterConfig g) ''springBootDependencies''")
       (simp_all add: addDependencyToGenerator_def)
qed

lemma addDependencies_completes:
  "\<not> truthy (get_property (jhipsterConfig g) ''springBootDependencies'')
   \<or> get_property (jhipsterConfig g) ''springBootDependencies'' = JObj deps \<Longrightarrow>
     fst (addDependencies ds g) = None"
proof (induction ds arbitrary: g deps)
  case Nil
  then show ?case by simp
next
  case (Cons d ds)
  from Cons.prems obtain g1 es1 deps1 where
    step: "addDependencyToGenerator d g = (None, g1, es1)"
    and slot: "get_property (jhipsterConfig g1) ''springBootDependencies'' = JObj deps1"
    by (auto simp: addDependencyToGenerator_falsy addDependencyToGenerator_object
          get_property_def jhipsterConfig_assignConfig map_of_set_property)
  from slot have "fst (addDependencies ds g1) = None"
    by (intro Cons.IH) simp
  then show ?case
    by (simp add: step case_prod_beta)
qed

lemma addDependencies_primitive:
  assumes "truthy (get_property (jhipsterConfig g) ''springBootDependencies'')"
    and "case get_property (jhipsterConfig g) ''springBootDependencies'' of
           JObj deps \<Rightarrow> False | _ \<Rightarrow> True"
    and "ds \<noteq> []"
  shows "addDependencies ds g = (Some TypeError, g, [])"
proof -
  from assms(3) obtain d rest where ds: "ds = d # rest"
    by (cases ds) auto
  have "addDependencyToGenerator d g = (Some TypeError, g, [])"
    using assms(1,2)
    by (cases "get_property (jhipsterConfig g) ''springBootDependencies''")
       (simp_all add: addDependencyToGenerator_total)
  then show ?thesis
    by (simp add: ds)
qed

text \<open>
  Claim C6, amended. For every dependency that \<^verbatim>\<open>applyTo\<close> reaches, it writes into the
  dependency map of the generator (the object under \<^verbatim>\<open>springBootDependencies\<close>, created
  empty when the key holds nothing or a falsy value), under the key groupId \<^verbatim>\<open>:\<close>
  artifactId, the version of the dependency, or \<^verbatim>\<open>BOM\<close> when it has none, unless the
  key \<^verbatim>\<open>springBootDependencies\<close> holds a truthy value that is not an object: then the
  write throws a \<^verbatim>\<open>TypeError\<close>, nothing is written, and the loop over the dependencies
  ends with it at its first dependency. Otherwise the loop completes. When \<^verbatim>\<open>applyTo\<close>
  completes, every dependency has been written, in registration order, and for each key
  the map holds the version of the dependency registered last with that key.
  Registering versions \<^verbatim>\<open>1.0.0\<close> and then \<^verbatim>\<open>2.0.0\<close> of \<^verbatim>\<open>com.example:lib\<close> on a generator
  with no dependency map leaves the map with the one entry \<^verbatim>\<open>com.example:lib\<close>: \<^verbatim>\<open>2.0.0\<close>.
\<close>

theorem dependency_writes:
  "dependencyKey dep = groupId dep @ '':'' @ artifactId dep
   \<and> dependencyVersion dep = JStr (case version dep of None \<Rightarrow> ''BOM'' | Some v \<Rightarrow> v)
   \<and> addDependencyToGenerator dep g =
       (case get_property (jhipsterConfig g) ''springBootDependencies'' of
          JObj deps \<Rightarrow>
            (None,
             assignConfig ''springBootDependencies''
               (JObj (set_property (dependencyKey dep) (dependencyVersion dep) deps)) g,
             [SetDependency (dependencyKey dep) (dependencyVersion dep)])
        | v \<Rightarrow>
            if truthy v then (Some TypeError, g, [])
            else (None,
                  assignConfig ''springBootDependencies''
                    (JObj [(dependencyKey dep, dependencyVersion dep)]) g,
                  [SetConfig ''springBootDependencies'' (JObj []),
                   SetDependency (dependencyKey dep) (dependencyVersion dep)]))
   \<and> (\<not> truthy (get_property (jhipsterConfig g) ''springBootDependencies'')
        \<or> get_property (jhipsterConfig g) ''springBootDependencies'' = JObj present \<longrightarrow>
        fst (addDependencies ds g) = None)
   \<and> (truthy (get_property (jhipsterConfig g) ''springBootDependencies'')
        \<and> (case get_property (jhipsterConfig g) ''springBootDependencies'' of
               JObj deps \<Rightarrow> False | _ \<Rightarrow> True)
        \<and> ds \<noteq> [] \<longrightarrow>
        addDependencies ds g = (Some TypeError, g, []))
   \<and> (fst (applyTo c self g) = None \<longrightarrow>
        filter isSetDependency (snd (snd (applyTo c self g))) =
        map (\<lambda>d. SetDependency (dependencyKey d) (dependencyVersion d)) (dependencies self))
   \<and> (fst (applyTo c self g) = None \<and> dependencies self = ds1 @ d # ds2
        \<and> list_all (\<lambda>d'. dependencyKey d' \<noteq> dependencyKey d) ds2 \<longrightarrow>
        (\<exists>m. map_of (jhipsterConfig (fst (snd (applyTo c self g)))) ''springBootDependencies''
               = Some (JObj m)
             \<and> map_of m (dependencyKey d) = Some (dependencyVersion d)))
   \<and> (map_of (jhipsterConfig g) ''springBootDependencies'' = None \<longrightarrow>
        applyTo c
          (addDependency \<lparr> groupId = ''com.example'', artifactId = ''lib'',
                            version = Some ''2.0.0'', scope = None, optional = None,
                            exclusions = None \<rparr>
          (addDependency \<lparr> groupId = ''com.example'', artifactId = ''lib'',
                            version = Some ''1.0.0'', scope = None, optional = None,
                            exclusions = None \<rparr>
             createSpringBootInjector)) g =
          (None,
           assignConfig ''springBootDependencies''
             (JObj [(''com.example:lib'', JStr ''2.0.0'')]) g,
           [SetConfig ''springBootDependencies'' (JObj []),
            SetDependency ''com.example:lib'' (JStr ''1.0.0''),
            SetDependency ''com.example:lib'' (JStr ''2.0.0'')]))"
proof -
  have key: "dependencyKey dep = groupId dep @ '':'' @ artifactId dep"
    by (simp add: dependencyKey_def)
  have ver: "dependencyVersion dep = JStr (case version dep of None \<Rightarrow> ''BOM'' | Some v \<Rightarrow> v)"
    by (simp add: dependencyVersion_def)
  have loop_completes: "fst (addDependencies ds g) = None"
    if "\<not> truthy (get_property (jhipsterConfig g) ''springBootDependencies'')
        \<or> get_property (jhipsterConfig g) ''springBootDependencies'' = JObj present"
    using that by (rule addDependencies_completes)
  have loop_throws: "addDependencies ds g = (Some TypeError, g, [])"
    if "truthy (get_property (jhipsterConfig g) ''springBootDependencies'')
        \<and> (case get_property (jhipsterConfig g) ''springBootDependencies'' of
               JObj deps \<Rightarrow> False | _ \<Rightarrow> True)
        \<and> ds \<noteq> []"
    using that by (intro addDependencies_primitive) simp_all
  have all_written: "filter isSetDependency (snd (snd (applyTo c self g))) =
        map (\<lambda>d. SetDependency (dependencyKey d) (dependencyVersion d)) (dependencies self)"
    if completes: "fst (applyTo c self g) = None"
  proof -
    from completes obtain g1 es1 g2 es2 g3 es3 where
      loop: "composeEnabledModules c
         (array_sort (\<lambda>a b. modulePriority a - modulePriority b) (modules self)) g = (None, g1, es1)"
      and ovs: "applyPropertyOverrides (propertyOverrides self) g1 = (g2, es2)"
      and deps: "addDependencies (dependencies self) g2 = (None, g3, es3)"
      and res: "applyTo c self g = (None, g3, es1 @ es2 @ es3)"
      by (rule applyTo_completes)
    have "filter isSetDependency es1 = []"
      using loop by (rule composeEnabledModules_no_dependency)
    moreover have "filter isSetDependency es2 = []"
      using applyPropertyOverrides_no_dependency [of "propertyOverrides self" g1]
      by (simp add: ovs)
    ultimately show ?thesis
      using addDependencies_written [OF deps] by (simp add: res)
  qed
  have last_wins: "\<exists>m. map_of (jhipsterConfig (fst (snd (applyTo c self g)))) ''springBootDependencies''
               = Some (JObj m)
             \<and> map_of m (dependencyKey d) = Some (dependencyVersion d)"
    if completes: "fst (applyTo c self g) = None"
      and split: "dependencies self = ds1 @ d # ds2"
      and unique: "list_all (\<lambda>d'. dependencyKey d' \<noteq> dependencyKey d) ds2"
  proof -
    from completes obtain g1 es1 g2 es2 g3 es3 where
      deps: "addDependencies (dependencies self) g2 = (None, g3, es3)"
      and res: "applyTo c self g = (None, g3, es1 @ es2 @ es3)"
      by (rule applyTo_completes)
    from deps have "addDependencies (ds1 @ d # ds2) g2 = (None, g3, es3)"
      by (simp add: split)
    from addDependencies_last_wins [OF this unique] show ?thesis
      by (simp add: res)
  qed
  have example: "applyTo c
          (addDependency \<lparr> groupId = ''com.example'', artifactId = ''lib'',
                            version = Some ''2.0.0'', scope = None, optional = None,
                            exclusions = None \<rparr>
          (addDependency \<lparr> groupId = ''com.example'', artifactId = ''lib'',
                            version = Some ''1.0.0'', scope = None, optional = None,
                            exclusions = None \<rparr>
             createSpringBootInjector)) g =
          (None,
           assignConfig ''springBootDependencies''
             (JObj [(''com.example:lib'', JStr ''2.0.0'')]) g,
           [SetConfig ''springBootDependencies'' (JObj []),
            SetDependency ''com.example:lib'' (JStr ''1.0.0''),
            SetDependency ''com.example:lib'' (JStr ''2.0.0'')])"
    if fresh: "map_of (jhipsterConfig g) ''springBootDependencies'' = None"
  proof -
    let ?da = "\<lparr> groupId = ''com.example'', artifactId = ''lib'',
                            version = Some ''1.0.0'', scope = None, optional = None,
                            exclusions = None \<rparr>"
    let ?db = "\<lparr> groupId = ''com.example'', artifactId = ''lib'',
                            version = Some ''2.0.0'', scope = None, optional = None,
                            exclusions = None \<rparr>"
    let ?g1 = "assignConfig ''springBootDependencies''
                 (JObj [(''com.example:lib'', JStr ''1.0.0'')]) g"
    have falsy: "\<not> truthy (get_property (jhipsterConfig g) ''springBootDependencies'')"
      by (simp add: get_property_def fresh)
    have one: "addDependencyToGenerator ?da g =
        (None, ?g1,
         [SetConfig ''springBootDependencies'' (JObj []),
          SetDependency ''com.example:lib'' (JStr ''1.0.0'')])"
      using addDependencyToGenerator_falsy [OF falsy, of ?da]
      by (simp add: dependencyKey_def dependencyVersion_def)
    have slot: "get_property (jhipsterConfig ?g1) ''springBootDependencies'' =
        JObj [(''com.example:lib'', JStr ''1.0.0'')]"
      by (simp add: get_property_def jhipsterConfig_assignConfig map_of_set_property)
    have two: "addDependencyToGenerator ?db ?g1 =
        (None,
         assignConfig ''springBootDependencies''
           (JObj [(''com.example:lib'', JStr ''2.0.0'')]) g,
         [SetDependency ''com.example:lib'' (JStr ''2.0.0'')])"
      using addDependencyToGenerator_object [OF slot, of ?db]
      by (simp add: dependencyKey_def dependencyVersion_def set_property_def assignConfig_def)
    show ?thesis
      by (simp add: applyTo_def addDependency_def createSpringBootInjector_def array_sort_def
            one two)
  qed
  from key ver addDependencyToGenerator_total [of dep g] loop_completes loop_throws
    all_written last_wins example
  show ?thesis
    by blast
qed

theorem dependency_writes_witness:
  "addDependencyToGenerator
      \<lparr> groupId = ''org.acme'', artifactId = ''tool'', version = None,
         scope = None, optional = None, exclusions = None \<rparr>
      \<lparr> jhipsterConfig = [] \<rparr> =
     (None,
      \<lparr> jhipsterConfig = [(''springBootDependencies'', JObj [(''org.acme:tool'', JStr ''BOM'')])] \<rparr>,
      [SetConfig ''springBootDependencies'' (JObj []),
       SetDependency ''org.acme:tool'' (JStr ''BOM'')])
   \<and> fst (applyTo (\<lambda>m opts g. (None, g))
        (addDependency \<lparr> groupId = ''com.example'', artifactId = ''lib'',
              version = Some ''2.0.0'', scope = None, optional = None, exclusions = None \<rparr>
        (addDependency \<lparr> groupId = ''org.acme'', artifactId = ''tool'', version = None,
              scope = None, optional = None, exclusions = None \<rparr>
        (addDependency \<lparr> groupId = ''com.example'', artifactId = ''lib'',
              version = Some ''1.0.0'', scope = None, optional = None, exclusions = None \<rparr>
           createSpringBootInjector)))
        \<lparr> jhipsterConfig = [(''springBootDependencies'', JObj [(''old:dep'', JStr ''0.1'')])] \<rparr>)
       = None
   \<and> filter isSetDependency (snd (snd (applyTo (\<lambda>m opts g. (None, g))
        (addDependency \<lparr> groupId = ''com.example'', artifactId = ''lib'',
              version = Some ''2.0.0'', scope = None, optional = None, exclusions = None \<rparr>
        (addDependency \<lparr> groupId = ''org.acme'', artifactId = ''tool'', version = None,
              scope = None, optional = None, exclusions = None \<rparr>
        (addDependency \<lparr> groupId = ''com.example'', artifactId = ''lib'',
              version = Some ''1.0.0'', scope = None, optional = None, exclusions = None \<rparr>
           createSpringBootInjector)))
        \<lparr> jhipsterConfig = [(''springBootDependencies'', JObj [(''old:dep'', JStr ''0.1'')])] \<rparr>)))
       = [SetDependency ''com.example:lib'' (JStr ''1.0.0''),
          SetDependency ''org.acme:tool'' (JStr ''BOM''),
          SetDependency ''com.example:lib'' (JStr ''2.0.0'')]
   \<and> (\<exists>m. map_of (jhipsterConfig (fst (snd (applyTo (\<lambda>m opts g. (None, g))
        (addDependency \<lparr> groupId = ''com.example'', artifactId = ''lib'',
              version = Some ''2.0.0'', scope = None, optional = None, exclusions = None \<rparr>
        (addDependency \<lparr> groupId = ''org.acme'', artifactId = ''tool'', version = None,
              scope = None, optional = None, exclusions = None \<rparr>
        (addDependency \<lparr> groupId = ''com.example'', artifactId = ''lib'',
              version = Some ''1.0.0'', scope = None, optional = None, exclusions = None \<rparr>
           createSpringBootInjector)))
        \<lparr> jhipsterConfig = [(''springBootDependencies'', JObj [(''old:dep'', JStr ''0.1'')])] \<rparr>))))
          ''springBootDependencies'' = Some (JObj m)
        \<and> map_of m ''com.example:lib'' = Some (JStr ''2.0.0''))
   \<and> addDependencies
        [\<lparr> groupId = ''com.example'', artifactId = ''lib'',
           version = Some ''1.0.0'', scope = None, optional = None, exclusions = None \<rparr>]
        \<lparr> jhipsterConfig = [(''springBootDependencies'', JNum 1)] \<rparr> =
       (Some TypeError, \<lparr> jhipsterConfig = [(''springBootDependencies'', JNum 1)] \<rparr>, [])"
proof -
  let ?c = "\<lambda>(m::string) (opts::compose_options) (g::generator). (None::js_exception option, g)"
  let ?da = "\<lparr> groupId = ''com.example'', artifactId = ''lib'',
              version = Some ''1.0.0'', scope = None, optional = None, exclusions = None \<rparr>"
  let ?db = "\<lparr> groupId = ''org.acme'', artifactId = ''tool'', version = None,
              scope = None, optional = None, exclusions = None \<rparr>"
  let ?dc = "\<lparr> groupId = ''com.example'', artifactId = ''lib'',
              version = Some ''2.0.0'', scope = None, optional = None, exclusions = None \<rparr>"
  let ?self = "addDependency ?dc (addDependency ?db (addDependency ?da createSpringBootInjector))"
  let ?g = "\<lparr> jhipsterConfig = [(''springBootDependencies'', JObj [(''old:dep'', JStr ''0.1'')])] \<rparr>"
  let ?fresh = "\<lparr> jhipsterConfig = [] \<rparr>"
  let ?bad = "\<lparr> jhipsterConfig = [(''springBootDependencies'', JNum 1)] \<rparr>"
  have keys: "dependencyKey ?da = ''com.example:lib''" "dependencyKey ?db = ''org.acme:tool''"
    "dependencyKey ?dc = ''com.example:lib''"
    "dependencyVersion ?da = JStr ''1.0.0''" "dependencyVersion ?db = JStr ''BOM''"
    "dependencyVersion ?dc = JStr ''2.0.0''"
    by (simp_all add: dependencyKey_def dependencyVersion_def)
  have absent: "get_property (jhipsterConfig ?fresh) ''springBootDependencies'' = JUndefined"
    by (simp add: get_property_def)
  from dependency_writes [where dep = ?db and g = ?fresh]
  have "addDependencyToGenerator ?db ?fresh =
       (case get_property (jhipsterConfig ?fresh) ''springBootDependencies'' of
          JObj deps \<Rightarrow>
            (None,
             assignConfig ''springBootDependencies''
               (JObj (set_property (dependencyKey ?db) (dependencyVersion ?db) deps)) ?fresh,
             [SetDependency (dependencyKey ?db) (dependencyVersion ?db)])
        | v \<Rightarrow>
            if truthy v then (Some TypeError, ?fresh, [])
            else (None,
                  assignConfig ''springBootDependencies''
                    (JObj [(dependencyKey ?db, dependencyVersion ?db)]) ?fresh,
                  [SetConfig ''springBootDependencies'' (JObj []),
                   SetDependency (dependencyKey ?db) (dependencyVersion ?db)]))"
    by blast
  then have single: "addDependencyToGenerator ?db ?fresh =
     (None,
      \<lparr> jhipsterConfig = [(''springBootDependencies'', JObj [(''org.acme:tool'', JStr ''BOM'')])] \<rparr>,
      [SetConfig ''springBootDependencies'' (JObj []),
       SetDependency ''org.acme:tool'' (JStr ''BOM'')])"
    unfolding absent by (simp add: keys assignConfig_def set_property_def)
  have deps: "dependencies ?self = [?da, ?db] @ ?dc # []"
    by (simp add: addDependency_def createSpringBootInjector_def)
  have completes: "fst (applyTo ?c ?self ?g) = None"
    by (simp add: applyTo_def addDependency_def createSpringBootInjector_def array_sort_def
          addDependencyToGenerator_def get_property_def assignConfig_def set_property_def)
  have unique: "list_all (\<lambda>d'. dependencyKey d' \<noteq> dependencyKey ?dc) []"
    by simp
  note inst = dependency_writes
                [where g = ?g and c = ?c and self = ?self and ?ds1.0 = "[?da, ?db]"
                   and d = ?dc and ?ds2.0 = "[]"]
  from inst completes
  have "filter isSetDependency (snd (snd (applyTo ?c ?self ?g))) =
        map (\<lambda>d. SetDependency (dependencyKey d) (dependencyVersion d)) (dependencies ?self)"
    by blast
  then have written: "filter isSetDependency (snd (snd (applyTo ?c ?self ?g))) =
       [SetDependency ''com.example:lib'' (JStr ''1.0.0''),
        SetDependency ''org.acme:tool'' (JStr ''BOM''),
        SetDependency ''com.example:lib'' (JStr ''2.0.0'')]"
    by (simp add: deps keys)
  from inst completes deps unique
  have "\<exists>m. map_of (jhipsterConfig (fst (snd (applyTo ?c ?self ?g)))) ''springBootDependencies''
               = Some (JObj m)
             \<and> map_of m (dependencyKey ?dc) = Some (dependencyVersion ?dc)"
    by blast
  then have last: "\<exists>m. map_of (jhipsterConfig (fst (snd (applyTo ?c ?self ?g))))
               ''springBootDependencies'' = Some (JObj m)
             \<and> map_of m ''com.example:lib'' = Some (JStr ''2.0.0'')"
    by (simp add: keys)
  have primitive: "truthy (get_property (jhipsterConfig ?bad) ''springBootDependencies'')
        \<and> (case get_property (jhipsterConfig ?bad) ''springBootDependencies'' of
               JObj deps \<Rightarrow> False | _ \<Rightarrow> True)
        \<and> [?da] \<noteq> []"
    by (simp add: get_property_def)
  from dependency_writes [where g = ?bad and ds = "[?da]"] primitive
  have throws: "addDependencies [?da] ?bad = (Some TypeError, ?bad, [])"
    by blast
  from single completes written last throws show ?thesis
    by (intro conjI)
qed

text \<open>
  Claim C6 as it was stated fails where \<^verbatim>\<open>applyTo\<close> does not reach the write. After
  \<^verbatim>\<open>overrideProperty('springBootDependencies', 1)\<close> the key holds a number, the write of
  the first dependency throws a \<^verbatim>\<open>TypeError\<close>, and no dependency is written. And when a
  composition call is rejected, \<^verbatim>\<open>applyTo\<close> ends before the dependencies.
\<close>

theorem dependency_writes_counterexample:
  "applyTo (\<lambda>m opts g. (None, g))
     (addDependency \<lparr> groupId = ''com.example'', artifactId = ''lib'',
           version = Some ''1.0.0'', scope = None, optional = None, exclusions = None \<rparr>
     (overrideProperty ''springBootDependencies'' (JNum 1) None createSpringBootInjector))
     \<lparr> jhipsterConfig = [] \<rparr> =
     (Some TypeError,
      \<lparr> jhipsterConfig = [(''springBootDependencies'', JNum 1)] \<rparr>,
      [SetConfig ''springBootDependencies'' (JNum 1)])
   \<and> applyTo (\<lambda>m opts g. (Some (Thrown (JStr ''rejected'')), g))
     (addDependency \<lparr> groupId = ''com.example'', artifactId = ''lib'',
           version = Some ''1.0.0'', scope = None, optional = None, exclusions = None \<rparr>
     (injectModule SPRING_BOOT_MODULES_JWT None createSpringBootInjector))
     \<lparr> jhipsterConfig = [] \<rparr> =
     (Some (Thrown (JStr ''rejected'')),
      \<lparr> jhipsterConfig = [] \<rparr>,
      [ComposeWith ''jhipster:spring-boot:jwt'' \<lparr> generatorOptions = None \<rparr>])"
  by (simp add: applyTo_def addDependency_def overrideProperty_def injectModule_def
        createSpringBootInjector_def defaultOverrideOptions_def defaultModuleOptions_def
        array_sort_def applyPropertyOverride_def assignConfig_def set_property_def
        addDependencyToGenerator_def get_property_def composeCall_def
        SPRING_BOOT_MODULES_JWT_def)


section \<open>The accessors return copies\<close>

lemma array_read_write_other:
  "a \<noteq> b \<Longrightarrow> array_read (array_write b ys h) a = array_read h a"
  by (simp add: array_read_def array_write_def)

lemma array_read_write_same:
  "a < length h \<Longrightarrow> array_read (array_write a ys h) a = ys"
  by (simp add: array_read_def array_write_def)

lemma array_read_alloc:
  "array_read (snd (array_alloc xs h)) (fst (array_alloc xs h)) = xs"
  "a < length h \<Longrightarrow> array_read (snd (array_alloc xs h)) a = array_read h a"
  by (simp_all add: array_read_def array_alloc_def nth_append)

lemma mutate_store_other_arrays:
  "a \<noteq> modulesRef self \<Longrightarrow>
     array_read (moduleArrays (mutate_store self mu s)) a = array_read (moduleArrays s) a"
  "a \<noteq> propertyOverridesRef self \<Longrightarrow>
     array_read (overrideArrays (mutate_store self mu s)) a = array_read (overrideArrays s) a"
  "a \<noteq> dependenciesRef self \<Longrightarrow>
     array_read (dependencyArrays (mutate_store self mu s)) a = array_read (dependencyArrays s) a"
  by (cases mu; simp add: injectModule_store_def overrideProperty_store_def
        addDependency_store_def array_push_def array_read_write_other Let_def)+

lemma mutations_other_arrays:
  "a \<noteq> modulesRef self \<Longrightarrow>
     array_read (moduleArrays (foldl (\<lambda>s mu. mutate_store self mu s) s mus)) a =
     array_read (moduleArrays s) a"
  "a \<noteq> propertyOverridesRef self \<Longrightarrow>
     array_read (overrideArrays (foldl (\<lambda>s mu. mutate_store self mu s) s mus)) a =
     array_read (overrideArrays s) a"
  "a \<noteq> dependenciesRef self \<Longrightarrow>
     array_read (dependencyArrays (foldl (\<lambda>s mu. mutate_store self mu s) s mus)) a =
     array_read (dependencyArrays s) a"
  by (induction mus arbitrary: s) (simp_all add: mutate_store_other_arrays)

lemma valid_mutate_store:
  "valid_injector self s \<Longrightarrow> valid_injector self (mutate_store self mu s)"
  by (cases mu) (simp_all add: valid_injector_def injectModule_store_def
        overrideProperty_store_def addDependency_store_def array_push_def array_write_def Let_def)

lemma mutate_store_refines:
  assumes "valid_injector self s"
  shows "injector_state self (mutate_store self mu s) = mutate mu (injector_state self s)"
  using assms
  by (cases mu)
     (simp_all add: valid_injector_def injector_state_def injectModule_store_def
        overrideProperty_store_def addDependency_store_def injectModule_def
        overrideProperty_def addDependency_def array_push_def array_read_write_same Let_def)

lemma mutations_refine:
  "valid_injector self s \<Longrightarrow>
     injector_state self (foldl (\<lambda>s mu. mutate_store self mu s) s mus) =
     foldl (\<lambda>i mu. mutate mu i) (injector_state self s) mus"
  by (induction mus arbitrary: s) (simp_all add: mutate_store_refines valid_mutate_store)

lemma getModules_store_copy:
  assumes "valid_injector self s"
  shows "case getModules_store self s of (a, s1) \<Rightarrow>
      array_read (moduleArrays s1) a = getModules (injector_state self s)
    \<and> a \<noteq> modulesRef self
    \<and> injector_state self s1 = injector_state self s
    \<and> array_read (moduleArrays (foldl (\<lambda>s mu. mutate_store self mu s) s1 mus)) a =
        getModules (injector_state self s)
    \<and> injector_state self (s1\<lparr> moduleArrays := array_write a ys (moduleArrays s1) \<rparr>) =
        injector_state self s"
proof -
  let ?a = "length (moduleArrays s)"
  let ?s1 = "s\<lparr> moduleArrays := moduleArrays s @ [array_read (moduleArrays s) (modulesRef self)] \<rparr>"
  have res: "getModules_store self s = (?a, ?s1)"
    by (simp add: getModules_store_def array_alloc_def)
  have fresh: "?a \<noteq> modulesRef self"
    using assms by (simp add: valid_injector_def)
  have copy: "array_read (moduleArrays ?s1) ?a = getModules (injector_state self s)"
    by (simp add: array_read_def getModules_def injector_state_def)
  have same: "injector_state self ?s1 = injector_state self s"
    using assms by (simp add: injector_state_def array_read_def valid_injector_def nth_append)
  have later: "array_read (moduleArrays (foldl (\<lambda>s mu. mutate_store self mu s) ?s1 mus)) ?a =
        getModules (injector_state self s)"
    using mutations_other_arrays(1) [OF fresh, of ?s1 mus] copy by simp
  have isolated: "injector_state self (?s1\<lparr> moduleArrays := array_write ?a ys (moduleArrays ?s1) \<rparr>) =
        injector_state self s"
    using assms
    by (simp add: injector_state_def array_read_def array_write_def valid_injector_def nth_append)
  from fresh copy same later isolated show ?thesis
    by (simp add: res)
qed

lemma getPropertyOverrides_store_copy:
  assumes "valid_injector self s"
  shows "case getPropertyOverrides_store self s of (a, s1) \<Rightarrow>
      array_read (overrideArrays s1) a = getPropertyOverrides (injector_state self s)
    \<and> a \<noteq> propertyOverridesRef self
    \<and> injector_state self s1 = injector_state self s
    \<and> array_read (overrideArrays (foldl (\<lambda>s mu. mutate_store self mu s) s1 mus)) a =
        getPropertyOverrides (injector_state self s)
    \<and> injector_state self (s1\<lparr> overrideArrays := array_write a ys (overrideArrays s1) \<rparr>) =
        injector_state self s"
proof -
  let ?a = "length (overrideArrays s)"
  let ?s1 = "s\<lparr> overrideArrays :=
      overrideArrays s @ [array_read (overrideArrays s) (propertyOverridesRef self)] \<rparr>"
  have res: "getPropertyOverrides_store self s = (?a, ?s1)"
    by (simp add: getPropertyOverrides_store_def array_alloc_def)
  have fresh: "?a \<noteq> propertyOverridesRef self"
    using assms by (simp add: valid_injector_def)
  have copy: "array_read (overrideArrays ?s1) ?a = getPropertyOverrides (injector_state self s)"
    by (simp add: array_read_def getPropertyOverrides_def injector_state_def)
  have same: "injector_state self ?s1 = injector_state self s"
    using assms by (simp add: injector_state_def array_read_def valid_injector_def nth_append)
  have later: "array_read (overrideArrays (foldl (\<lambda>s mu. mutate_store self mu s) ?s1 mus)) ?a =
        getPropertyOverrides (injector_state self s)"
    using mutations_other_arrays(2) [OF fresh, of ?s1 mus] copy by simp
  have isolated: "injector_state self (?s1\<lparr> overrideArrays := array_write ?a ys (overrideArrays ?s1) \<rparr>) =
        injector_state self s"
    using assms
    by (simp add: injector_state_def array_read_def array_write_def valid_injector_def nth_append)
  from fresh copy same later isolated show ?thesis
    by (simp add: res)
qed

lemma getDependencies_store_copy:
  assumes "valid_injector self s"
  shows "case getDependencies_store self s of (a, s1) \<Rightarrow>
      array_read (dependencyArrays s1) a = getDependencies (injector_state self s)
    \<and> a \<noteq> dependenciesRef self
    \<and> injector_state self s1 = injector_state self s
    \<and> array_read (dependencyArrays (foldl (\<lambda>s mu. mutate_store self mu s) s1 mus)) a =
        getDependencies (injector_state self s)
    \<and> injector_state self (s1\<lparr> dependencyArrays := array_write a ys (dependencyArrays s1) \<rparr>) =
        injector_state self s"
proof -
  let ?a = "length (dependencyArrays s)"
  let ?s1 = "s\<lparr> dependencyArrays :=
      dependencyArrays s @ [array_read (dependencyArrays s) (dependenciesRef self)] \<rparr>"
  have res: "getDependencies_store self s = (?a, ?s1)"
    by (simp add: getDependencies_store_def array_alloc_def)
  have fresh: "?a \<noteq> dependenciesRef self"
    using assms by (simp add: valid_injector_def)
  have copy: "array_read (dependencyArrays ?s1) ?a = getDependencies (injector_state self s)"
    by (simp add: array_read_def getDependencies_def injector_state_def)
  have same: "injector_state self ?s1 = injector_state self s"
    using assms by (simp add: injector_state_def array_read_def valid_injector_def nth_append)
  have later: "array_read (dependencyArrays (foldl (\<lambda>s mu. mutate_store self mu s) ?s1 mus)) ?a =
        getDependencies (injector_state self s)"
    using mutations_other_arrays(3) [OF fresh, of ?s1 mus] copy by simp
  have isolated: "injector_state self (?s1\<lparr> dependencyArrays := array_write ?a ys (dependencyArrays ?s1) \<rparr>) =
        injector_state self s"
    using assms
    by (simp add: injector_state_def array_read_def array_write_def valid_injector_def nth_append)
  from fresh copy same later isolated show ?thesis
    by (simp add: res)
qed



text \<open>
  Claim C3. Each of the accessors \<^verbatim>\<open>getModules\<close>, \<^verbatim>\<open>getPropertyOverrides\<close> and
  \<^verbatim>\<open>getDependencies\<close> returns a new array that holds the elements of the internal array
  in insertion order: its address is not the address of the internal array, and the
  call leaves the state of the injector as it was. Whatever is registered on the
  injector afterwards, the returned array keeps the contents it was returned with; and
  whatever is written into the returned array, the state of the injector stays as it
  was. The mutations of the injector in the store are those of its state: the chain
  of calls has on the three arrays the effect it has on the three lists.
\<close>

theorem accessors_return_copies:
  assumes "valid_injector self s"
  shows "(case getModules_store self s of (a, s1) \<Rightarrow>
      array_read (moduleArrays s1) a = getModules (injector_state self s)
    \<and> a \<noteq> modulesRef self
    \<and> injector_state self s1 = injector_state self s
    \<and> array_read (moduleArrays (foldl (\<lambda>s mu. mutate_store self mu s) s1 mus)) a =
        getModules (injector_state self s)
    \<and> injector_state self (s1\<lparr> moduleArrays := array_write a ms (moduleArrays s1) \<rparr>) =
        injector_state self s)
   \<and> (case getPropertyOverrides_store self s of (a, s1) \<Rightarrow>
      array_read (overrideArrays s1) a = getPropertyOverrides (injector_state self s)
    \<and> a \<noteq> propertyOverridesRef self
    \<and> injector_state self s1 = injector_state self s
    \<and> array_read (overrideArrays (foldl (\<lambda>s mu. mutate_store self mu s) s1 mus)) a =
        getPropertyOverrides (injector_state self s)
    \<and> injector_state self (s1\<lparr> overrideArrays := array_write a ovs (overrideArrays s1) \<rparr>) =
        injector_state self s)
   \<and> (case getDependencies_store self s of (a, s1) \<Rightarrow>
      array_read (dependencyArrays s1) a = getDependencies (injector_state self s)
    \<and> a \<noteq> dependenciesRef self
    \<and> injector_state self s1 = injector_state self s
    \<and> array_read (dependencyArrays (foldl (\<lambda>s mu. mutate_store self mu s) s1 mus)) a =
        getDependencies (injector_state self s)
    \<and> injector_state self (s1\<lparr> dependencyArrays := array_write a ds (dependencyArrays s1) \<rparr>) =
        injector_state self s)
   \<and> injector_state self (foldl (\<lambda>s mu. mutate_store self mu s) s mus) =
       foldl (\<lambda>i mu. mutate mu i) (injector_state self s) mus"
  using getModules_store_copy [OF assms, of mus ms]
    getPropertyOverrides_store_copy [OF assms, of mus ovs]
    getDependencies_store_copy [OF assms, of mus ds]
    mutations_refine [OF assms, of mus]
  by (intro conjI)

theorem accessors_return_copies_witness:
  "valid_injector \<lparr> modulesRef = 0, propertyOverridesRef = 0, dependenciesRef = 0 \<rparr>
     \<lparr> moduleArrays =
          [[\<lparr> enabled = True, config = None, priority = None, module = ''jhipster:spring-boot:jwt'' \<rparr>]],
        overrideArrays = [[]], dependencyArrays = [[]] \<rparr>
   \<and> fst (getModules_store \<lparr> modulesRef = 0, propertyOverridesRef = 0, dependenciesRef = 0 \<rparr>
     \<lparr> moduleArrays =
          [[\<lparr> enabled = True, config = None, priority = None, module = ''jhipster:spring-boot:jwt'' \<rparr>]],
        overrideArrays = [[]], dependencyArrays = [[]] \<rparr>) = 1
   \<and> array_read (moduleArrays
         (foldl (\<lambda>s mu. mutate_store
                    \<lparr> modulesRef = 0, propertyOverridesRef = 0, dependenciesRef = 0 \<rparr> mu s)
            (snd (getModules_store
                    \<lparr> modulesRef = 0, propertyOverridesRef = 0, dependenciesRef = 0 \<rparr>
                    \<lparr> moduleArrays =
                         [[\<lparr> enabled = True, config = None, priority = None,
                             module = ''jhipster:spring-boot:jwt'' \<rparr>]],
                       overrideArrays = [[]], dependencyArrays = [[]] \<rparr>))
            [InjectModule ''jhipster:spring-boot:oauth2''
               (Some \<lparr> enabled = False, config = None, priority = None, moduleKey = None \<rparr>)])) 1 =
       [\<lparr> enabled = True, config = None, priority = None, module = ''jhipster:spring-boot:jwt'' \<rparr>]
   \<and> getModules (injector_state
         \<lparr> modulesRef = 0, propertyOverridesRef = 0, dependenciesRef = 0 \<rparr>
         (foldl (\<lambda>s mu. mutate_store
                    \<lparr> modulesRef = 0, propertyOverridesRef = 0, dependenciesRef = 0 \<rparr> mu s)
            \<lparr> moduleArrays =
                 [[\<lparr> enabled = True, config = None, priority = None,
                     module = ''jhipster:spring-boot:jwt'' \<rparr>]],
               overrideArrays = [[]], dependencyArrays = [[]] \<rparr>
            [InjectModule ''jhipster:spring-boot:oauth2''
               (Some \<lparr> enabled = False, config = None, priority = None, moduleKey = None \<rparr>)])) =
       [\<lparr> enabled = True, config = None, priority = None, module = ''jhipster:spring-boot:jwt'' \<rparr>,
        \<lparr> enabled = False, config = None, priority = None, module = ''jhipster:spring-boot:oauth2'' \<rparr>]"
proof -
  let ?self = "\<lparr> modulesRef = 0, propertyOverridesRef = 0, dependenciesRef = 0 \<rparr>"
  let ?jwt = "\<lparr> enabled = True, config = None, priority = None, module = ''jhipster:spring-boot:jwt'' \<rparr>"
  let ?s = "\<lparr> moduleArrays = [[?jwt]], overrideArrays = [[]], dependencyArrays = [[]] \<rparr>"
  let ?mus = "[InjectModule ''jhipster:spring-boot:oauth2''
               (Some \<lparr> enabled = False, config = None, priority = None, moduleKey = None \<rparr>)]"
  have valid: "valid_injector ?self ?s"
    by (simp add: valid_injector_def)
  have res: "getModules_store ?self ?s =
      (1, \<lparr> moduleArrays = [[?jwt], [?jwt]], overrideArrays = [[]], dependencyArrays = [[]] \<rparr>)"
    by (simp add: getModules_store_def array_alloc_def array_read_def)
  have state: "injector_state ?self ?s =
      \<lparr> modules = [?jwt], propertyOverrides = [], dependencies = [] \<rparr>"
    by (simp add: injector_state_def array_read_def)
  note inst = accessors_return_copies [OF valid, of ?mus]
  from inst have "array_read (moduleArrays
         (foldl (\<lambda>s mu. mutate_store ?self mu s) (snd (getModules_store ?self ?s)) ?mus))
         (fst (getModules_store ?self ?s)) = getModules (injector_state ?self ?s)"
    by (simp add: res)
  then have snapshot: "array_read (moduleArrays
         (foldl (\<lambda>s mu. mutate_store ?self mu s) (snd (getModules_store ?self ?s)) ?mus)) 1 =
       [?jwt]"
    by (simp add: res state getModules_def)
  from inst have "injector_state ?self (foldl (\<lambda>s mu. mutate_store ?self mu s) ?s ?mus) =
       foldl (\<lambda>i mu. mutate mu i) (injector_state ?self ?s) ?mus"
    by blast
  then have mutated: "getModules (injector_state ?self
         (foldl (\<lambda>s mu. mutate_store ?self mu s) ?s ?mus)) =
       [?jwt, \<lparr> enabled = False, config = None, priority = None,
                 module = ''jhipster:spring-boot:oauth2'' \<rparr>]"
    by (simp add: state getModules_def injectModule_def)
  have first: "fst (getModules_store ?self ?s) = 1"
    by (simp add: res)
  from valid first snapshot mutated show ?thesis
    by (intro conjI)
qed

end
